theory Spec2Isabelle
  imports Main
begin

section \<open>The collaborators of \<^verbatim>\<open>lib/index.js\<close>\<close>

text \<open>
  \<^verbatim>\<open>lib/index.js\<close> imports \<^verbatim>\<open>html\<close>, \<^verbatim>\<open>svg\<close> and \<^verbatim>\<open>find\<close> from
  property-information, \<^verbatim>\<open>webNamespaces\<close> from web-namespaces, \<^verbatim>\<open>toH\<close> from
  hast-to-hyperscript and \<^verbatim>\<open>zwitch\<close>. None of them is part of the repository.
  The two schemas are the only schema values that ever flow through the code
  (\<^verbatim>\<open>space === 'svg' ? svg : html\<close> at the entry point, \<^verbatim>\<open>schema = svg\<close> in
  \<^verbatim>\<open>h\<close>), so a schema is one of two constants.
\<close>

datatype schema = html | svg

text \<open>
  Modelled from the spec: the \<^verbatim>\<open>space\<close> field of the two fixed schema tables
  (section 6: the initial schema is selected by the flag "html" or "svg").
\<close>

definition space :: "schema \<Rightarrow> string" where
  "space s = (case s of html \<Rightarrow> ''html'' | svg \<Rightarrow> ''svg'')"

text \<open>
  The metadata \<^verbatim>\<open>find(schema, key)\<close> returns; \<^verbatim>\<open>h\<close> reads \<^verbatim>\<open>info.boolean\<close>
  and \<^verbatim>\<open>info.space\<close> only. \<open>None\<close> is \<^verbatim>\<open>undefined\<close>.
\<close>

record info =
  boolean :: bool
  info_space :: "string option"

text \<open>
  What the code takes from outside, as parameters: the resolver \<^verbatim>\<open>find\<close>, the
  table \<^verbatim>\<open>ns\<close> (\<^verbatim>\<open>webNamespaces\<close>; \<open>None\<close> where the table has no such key),
  and, for JavaScript numbers (type \<open>'n\<close>), what \<^verbatim>\<open>String(x)\<close> and \<^verbatim>\<open>!x\<close>
  give.
\<close>

record 'n env =
  find :: "schema \<Rightarrow> string \<Rightarrow> info"
  ns :: "string \<Rightarrow> string option"
  num_String :: "'n \<Rightarrow> string"
  num_falsy :: "'n \<Rightarrow> bool"

section \<open>The source tree (hast)\<close>

record 'n point =
  line :: 'n
  column :: 'n
  offset :: "'n option"

text \<open>\<open>pos_start\<close> and \<open>pos_end\<close> are \<^verbatim>\<open>position.start\<close> and \<^verbatim>\<open>position.end\<close>.\<close>

record 'n position =
  pos_start :: "'n point option"
  pos_end :: "'n point option"

text \<open>A property value, as the type of \<^verbatim>\<open>attrs\<close> in \<^verbatim>\<open>h\<close> has it:
  \<^verbatim>\<open>Object.<string, string|boolean|number>\<close>.\<close>

datatype 'n prim = Bool bool | Str string | Num 'n

text \<open>
  A node is tagged by its \<^verbatim>\<open>type\<close>; \<open>Unknown\<close> is a node of any other type.
  \<open>val\<close> is the field \<^verbatim>\<open>value\<close>. A field a node does not have reads \<^verbatim>\<open>undefined\<close>
  (\<open>None\<close>). \<open>data\<close> is \<^verbatim>\<open>node.data\<close> with its \<^verbatim>\<open>quirksMode\<close>.
\<close>

datatype 'n node =
    Root (position: "'n position option") (data: "bool option option")
      (children: "'n node list option")
  | Element (position: "'n position option") (tagName: string)
      (properties: "(string \<times> 'n prim) list") (children: "'n node list option")
      (content: "'n node option")
  | Text (position: "'n position option") (val: string)
  | Comment (position: "'n position option") (val: string)
  | Doctype (position: "'n position option")
  | Unknown (position: "'n position option") (children: "'n node list option")
where
  "children (Text p v) = None"
| "children (Comment p v) = None"
| "children (Doctype p) = None"
| "content (Root p d cs) = None"
| "content (Text p v) = None"
| "content (Comment p v) = None"
| "content (Doctype p) = None"
| "content (Unknown p cs) = None"

section \<open>The target tree (parse5)\<close>

type_synonym addr = nat

record 'n location =
  startLine :: 'n
  startCol :: 'n
  startOffset :: "'n option"
  endLine :: 'n
  endCol :: 'n
  endOffset :: "'n option"

text \<open>
  An entry of \<^verbatim>\<open>attrs\<close>; \<open>attr_value\<close> is its field \<^verbatim>\<open>value\<close>. \<open>prefix\<close> and
  \<open>namespace\<close> are \<open>None\<close> when the entry has no such field; \<open>namespace = Some None\<close>
  is the field set to \<^verbatim>\<open>undefined\<close> (\<^verbatim>\<open>ns\<close> has no such key).
\<close>

record attribute =
  name :: string
  attr_value :: string
  prefix :: "string option"
  namespace :: "string option option"

section \<open>JavaScript primitives\<close>

definition falsy :: "'n env \<Rightarrow> 'n prim \<Rightarrow> bool" where
  "falsy E v = (case v of Bool b \<Rightarrow> \<not> b | Str s \<Rightarrow> s = [] | Num n \<Rightarrow> num_falsy E n)"

definition String :: "'n env \<Rightarrow> 'n prim \<Rightarrow> string" where
  "String E v = (case v of Bool b \<Rightarrow> (if b then ''true'' else ''false'')
     | Str s \<Rightarrow> s | Num n \<Rightarrow> num_String E n)"

text \<open>\<^verbatim>\<open>key.indexOf(c)\<close>: the first index of \<open>c\<close>, or -1.\<close>

fun indexOf :: "string \<Rightarrow> char \<Rightarrow> int" where
  "indexOf [] c = -1"
| "indexOf (x # xs) c =
     (if x = c then 0 else (let i = indexOf xs c in if i < 0 then -1 else i + 1))"

text \<open>\<^verbatim>\<open>key.slice(from)\<close> and \<^verbatim>\<open>key.slice(0, to)\<close> for indices that are not negative.\<close>

definition slice_from :: "string \<Rightarrow> int \<Rightarrow> string" where
  "slice_from key i = drop (nat i) key"

definition slice_to :: "string \<Rightarrow> int \<Rightarrow> string" where
  "slice_to key i = take (nat i) key"

text \<open>\<^verbatim>\<open>ns[k]\<close>, where the key \<^verbatim>\<open>undefined\<close> is the string "undefined".\<close>

definition ns_at :: "'n env \<Rightarrow> string option \<Rightarrow> string option" where
  "ns_at E k = (case k of None \<Rightarrow> ns E ''undefined'' | Some s \<Rightarrow> ns E s)"

section \<open>The attribute loop of \<^verbatim>\<open>h\<close>\<close>

text \<open>
  \<^verbatim>\<open>info.space && info.space !== 'html' && info.space !== 'svg'\<close>: the attribute
  belongs to a foreign namespace.
\<close>

definition foreign :: "info \<Rightarrow> bool" where
  "foreign i = (case info_space i of None \<Rightarrow> False
     | Some s \<Rightarrow> s \<noteq> [] \<and> s \<noteq> ''html'' \<and> s \<noteq> ''svg'')"

text \<open>
  The body of one iteration after the two \<^verbatim>\<open>continue\<close> tests: the entry pushed for
  \<open>key\<close> with value \<open>v\<close> and metadata \<open>i\<close> (lines 166 to 182).
\<close>

definition entry :: "'n env \<Rightarrow> info \<Rightarrow> string \<Rightarrow> 'n prim \<Rightarrow> attribute" where
  "entry E i key v =
     (let value = \<lparr>name = key,
                   attr_value = (if v = Bool True then [] else String E v),
                   prefix = None, namespace = None\<rparr>
      in if foreign i
         then (let index = indexOf key (CHR '':'');
                   value1 = (if index < 0 then value\<lparr>prefix := Some []\<rparr>
                             else value\<lparr>name := slice_from key (index + 1),
                                        prefix := Some (slice_to key index)\<rparr>)
               in value1\<lparr>namespace := Some (ns_at E (info_space i))\<rparr>)
         else value)"

text \<open>
  \<^verbatim>\<open>for (key in attrs) ...\<close> (lines 154 to 185). The mapping is the list of its own
  entries in enumeration order; \<open>values\<close> is the array built so far.
\<close>

fun attrs_loop :: "'n env \<Rightarrow> schema \<Rightarrow> (string \<times> 'n prim) list \<Rightarrow> attribute list
    \<Rightarrow> attribute list" where
  "attrs_loop E schema [] values = values"
| "attrs_loop E schema ((key, v) # rest) values =
     (if v = Bool False then attrs_loop E schema rest values
      else (let i = find E schema key
            in if boolean i \<and> falsy E v then attrs_loop E schema rest values
               else attrs_loop E schema rest (values @ [entry E i key v])))"


section \<open>The heap of produced nodes\<close>

text \<open>
  The fields a produced node has besides the ones every node may carry, by kind.
\<close>

datatype payload =
    Document (mode: string)
  | Fragment
  | DocumentType (doctype_name: string) (publicId: string) (systemId: string)
  | TextNode (text_value: string)
  | CommentNode (comment_data: string)
  | ElementNode (p5_tagName: string) (attrs: "attribute list")
      (namespaceURI: "string option")

text \<open>
  A produced object. \<open>childNodes\<close> and \<open>p5_content\<close> (the field \<^verbatim>\<open>content\<close>) are
  \<open>None\<close> on an object without the field. \<open>parentNode = None\<close> is an object without
  the field, \<open>Some None\<close> the field holding \<^verbatim>\<open>undefined\<close>, \<open>Some (Some p)\<close> a
  reference to the object at \<open>p\<close>. \<open>parent_writes\<close> is not a field of the JavaScript
  object: it counts the assignments \<^verbatim>\<open>child.parentNode = p5\<close> made to this object.
\<close>

record 'n p5 =
  nodeName :: string
  kind :: payload
  childNodes :: "addr list option"
  parentNode :: "addr option option"
  p5_content :: "addr option"
  sourceCodeLocation :: "'n location option"
  parent_writes :: nat

text \<open>
  Objects are created in order and never freed: the heap is the list of the objects
  created so far and an address is an index into it.
\<close>

type_synonym 'n heap = "'n p5 list"

datatype error = UnsupportedNodeKind | TypeError

definition object :: "string \<Rightarrow> payload \<Rightarrow> addr list option \<Rightarrow> addr option option \<Rightarrow> 'n p5" where
  "object nm f cs p =
     \<lparr>nodeName = nm, kind = f, childNodes = cs, parentNode = p, p5_content = None,
      sourceCodeLocation = None, parent_writes = 0\<rparr>"

definition alloc :: "'n p5 \<Rightarrow> 'n heap \<Rightarrow> addr \<times> 'n heap" where
  "alloc obj H = (length H, H @ [obj])"

definition update :: "addr \<Rightarrow> ('n p5 \<Rightarrow> 'n p5) \<Rightarrow> 'n heap \<Rightarrow> 'n heap" where
  "update a f H = H[a := f (H ! a)]"

text \<open>\<^verbatim>\<open>child.parentNode = p5\<close> (line 232).\<close>

definition set_parentNode :: "addr \<Rightarrow> addr \<Rightarrow> 'n heap \<Rightarrow> 'n heap" where
  "set_parentNode child p5 H =
     update child (\<lambda>obj. obj\<lparr>parentNode := Some (Some p5),
                             parent_writes := Suc (parent_writes obj)\<rparr>) H"

section \<open>The location patcher\<close>

definition patch :: "'n node \<Rightarrow> addr \<Rightarrow> 'n heap \<Rightarrow> 'n heap" where
  "patch node p5 H =
     (case position node of
        None \<Rightarrow> H
      | Some pos \<Rightarrow>
          (case pos_start pos of
             None \<Rightarrow> H
           | Some st \<Rightarrow>
               (case pos_end pos of
                  None \<Rightarrow> H
                | Some en \<Rightarrow>
                    update p5 (\<lambda>obj. obj\<lparr>sourceCodeLocation := Some
                      \<lparr>startLine = line st, startCol = column st, startOffset = offset st,
                       endLine = line en, endCol = column en, endOffset = offset en\<rparr>\<rparr>) H)))"

section \<open>The converters without children\<close>

definition doctype :: "'n node \<Rightarrow> 'n heap \<Rightarrow> addr \<times> 'n heap" where
  "doctype node H =
     (let (p5, H1) = alloc (object ''#documentType'' (DocumentType ''html'' [] []) None
                             (Some None)) H
      in (p5, patch node p5 H1))"

definition text_node :: "'n node \<Rightarrow> 'n heap \<Rightarrow> addr \<times> 'n heap" where
  "text_node node H =
     (let (p5, H1) = alloc (object ''#text'' (TextNode (val node)) None (Some None)) H
      in (p5, patch node p5 H1))"

definition comment :: "'n node \<Rightarrow> 'n heap \<Rightarrow> addr \<times> 'n heap" where
  "comment node H =
     (let (p5, H1) = alloc (object ''#comment'' (CommentNode (val node)) None (Some None)) H
      in (p5, patch node p5 H1))"

section \<open>The recursive converters\<close>

text \<open>
  Modelled from the spec: the generic node-builder helper \<^verbatim>\<open>toH\<close> of
  hast-to-hyperscript, which is not part of the repository (section 6: a tag name and
  a flattened property mapping go to the builder, which constructs the element). It
  calls the builder \<open>h\<close> once, with the tag name and the property mapping of the node
  it is given.
\<close>

definition toH :: "(string \<Rightarrow> (string \<times> 'n prim) list \<Rightarrow> 'r) \<Rightarrow> 'n node \<Rightarrow> 'r" where
  "toH h node = h (tagName node) (properties node)"

lemma toH_cong [fundef_cong]:
  "node = node' \<Longrightarrow> (\<And>tag as. h tag as = h' tag as) \<Longrightarrow> toH h node = toH h' node'"
  by (simp add: toH_def)

text \<open>\<^verbatim>\<open>Object.assign({}, node, {children: []})\<close>: a copy of the element with no children.\<close>

definition without_children :: "'n node \<Rightarrow> 'n node" where
  "without_children node =
     (case node of Element p t ps cs c \<Rightarrow> Element p t ps (Some []) c | _ \<Rightarrow> node)"

text \<open>Line 187: the schema after \<^verbatim>\<open>if (schema.space === 'html' && node.tagName === 'svg') schema = svg\<close>.\<close>

definition switched :: "schema \<Rightarrow> 'n node \<Rightarrow> schema" where
  "switched schema node =
     (if space schema = ''html'' \<and> tagName node = ''svg'' then svg else schema)"

lemma size_children: "size_option (size_list size) (children n) \<le> size n"
  by (cases n) simp_all

lemma size_content: "content n = Some c \<Longrightarrow> size c < size n"
  by (cases n) simp_all

lemma size_children_less:
  "5 * size_option (size_list size) (children n) < Suc (Suc (5 * size n))"
  "5 * size_option (size_list size) (children n) < Suc (5 * size n)"
  using size_children [of n] by simp_all

lemma size_content_less: "content n = Some c \<Longrightarrow> Suc (5 * size c) < 5 * size n"
  using size_content [of n c] by simp

text \<open>
  \<^verbatim>\<open>fragment(undefined, schema)\<close>, the call made for a template element without
  content: line 78 creates the object, then reading \<^verbatim>\<open>children\<close> of \<^verbatim>\<open>undefined\<close>
  at line 80 throws.
\<close>

definition fragment_undefined :: "'n heap \<Rightarrow> (error \<times> 'n heap) + (addr \<times> 'n heap)" where
  "fragment_undefined H =
     (let (p5, H1) = alloc (object ''#document-fragment'' Fragment (Some []) None) H
      in Inl (TypeError, H1))"

text \<open>
  Modelled from the spec: what the dispatcher built by \<^verbatim>\<open>zwitch\<close> does with a node
  whose type has no handler. \<^verbatim>\<open>zwitch\<close> is not part of the repository, and line 40
  gives it the five handlers and nothing for another type; for such a node the
  dispatcher fails with an "unsupported node kind" error (section 4.1).
\<close>

definition unsupported :: "'n node \<Rightarrow> 'n heap \<Rightarrow> (error \<times> 'n heap) + (addr \<times> 'n heap)" where
  "unsupported node H = Inl (UnsupportedNodeKind, H)"

text \<open>
  The dispatcher \<open>one\<close>, the handlers it calls and the child-list transformer \<open>all\<close>.
  A result is \<open>Inr (p5, H)\<close>, the address returned and the heap then, or
  \<open>Inl (e, H)\<close>, the exception thrown and the heap at the throw.

  \<open>schema1\<close> in \<open>h\<close> is the variable \<^verbatim>\<open>schema\<close> after line 187. \<open>all_loop\<close> is the
  \<^verbatim>\<open>while\<close> loop of \<open>all\<close> over the children from \<^verbatim>\<open>index\<close> on, with \<open>result\<close>
  the array built so far.
\<close>

function one :: "'n env \<Rightarrow> 'n node \<Rightarrow> schema \<Rightarrow> 'n heap \<Rightarrow> (error \<times> 'n heap) + (addr \<times> 'n heap)"
  and root :: "'n env \<Rightarrow> 'n node \<Rightarrow> schema \<Rightarrow> 'n heap \<Rightarrow> (error \<times> 'n heap) + (addr \<times> 'n heap)"
  and fragment :: "'n env \<Rightarrow> 'n node \<Rightarrow> schema \<Rightarrow> 'n heap \<Rightarrow> (error \<times> 'n heap) + (addr \<times> 'n heap)"
  and element :: "'n env \<Rightarrow> 'n node \<Rightarrow> schema \<Rightarrow> 'n heap \<Rightarrow> (error \<times> 'n heap) + (addr \<times> 'n heap)"
  and h :: "'n env \<Rightarrow> 'n node \<Rightarrow> schema \<Rightarrow> string \<Rightarrow> (string \<times> 'n prim) list \<Rightarrow> 'n heap
    \<Rightarrow> (error \<times> 'n heap) + (addr \<times> 'n heap)"
  and all :: "'n env \<Rightarrow> 'n node list option \<Rightarrow> addr \<Rightarrow> schema \<Rightarrow> 'n heap
    \<Rightarrow> (error \<times> 'n heap) + (addr list \<times> 'n heap)"
  and all_loop :: "'n env \<Rightarrow> 'n node list \<Rightarrow> addr \<Rightarrow> schema \<Rightarrow> addr list \<Rightarrow> 'n heap
    \<Rightarrow> (error \<times> 'n heap) + (addr list \<times> 'n heap)"
where
  "one E node schema H =
     (case node of
        Root p d cs \<Rightarrow> root E node schema H
      | Element p t ps cs c \<Rightarrow> element E node schema H
      | Text p v \<Rightarrow> Inr (text_node node H)
      | Comment p v \<Rightarrow> Inr (comment node H)
      | Doctype p \<Rightarrow> Inr (doctype node H)
      | Unknown p cs \<Rightarrow> unsupported node H)"
| "root E node schema H =
     (let (p5, H1) = alloc (object ''#document''
              (Document (if data node = Some (Some True) then ''quirks'' else ''no-quirks''))
              (Some []) None) H
      in case all E (children node) p5 schema H1 of
           Inl e \<Rightarrow> Inl e
         | Inr (result, H2) \<Rightarrow>
             Inr (p5, patch node p5 (update p5 (\<lambda>obj. obj\<lparr>childNodes := Some result\<rparr>) H2)))"
| "fragment E node schema H =
     (let (p5, H1) = alloc (object ''#document-fragment'' Fragment (Some []) None) H
      in case all E (children node) p5 schema H1 of
           Inl e \<Rightarrow> Inl e
         | Inr (result, H2) \<Rightarrow>
             Inr (p5, patch node p5 (update p5 (\<lambda>obj. obj\<lparr>childNodes := Some result\<rparr>) H2)))"
| "element E node schema H =
     toH (\<lambda>tag as. h E node schema tag as H) (without_children node)"
| "h E node schema tag as H =
     (let values = attrs_loop E schema as [];
          schema1 = switched schema node;
          (p5, H1) = alloc (object tag
              (ElementNode tag values (ns_at E (Some (space schema1)))) (Some []) (Some None)) H;
          H2 = patch node p5 H1
      in case all E (children node) p5 schema1 H2 of
           Inl e \<Rightarrow> Inl e
         | Inr (result, H3) \<Rightarrow>
             (let H4 = update p5 (\<lambda>obj. obj\<lparr>childNodes := Some result\<rparr>) H3
              in if tag = ''template''
                 then (case content node of
                         None \<Rightarrow> fragment_undefined H4
                       | Some c \<Rightarrow>
                           (case fragment E c schema1 H4 of
                              Inl e \<Rightarrow> Inl e
                            | Inr (f, H5) \<Rightarrow>
                                Inr (p5, update p5 (\<lambda>obj. obj\<lparr>p5_content := Some f\<rparr>) H5)))
                 else Inr (p5, H4)))"
| "all E cs p5 schema H =
     (case cs of None \<Rightarrow> Inr ([], H) | Some xs \<Rightarrow> all_loop E xs p5 schema [] H)"
| "all_loop E [] p5 schema result H = Inr (result, H)"
| "all_loop E (x # xs) p5 schema result H =
     (case one E x schema H of
        Inl e \<Rightarrow> Inl e
      | Inr (child, H1) \<Rightarrow>
          all_loop E xs p5 schema (result @ [child]) (set_parentNode child p5 H1))"
  by pat_completeness auto

termination one
  apply (relation "measure (\<lambda>x. case x of
      Inl (Inl (E, n, s, H)) \<Rightarrow> 5 * size n + 4
    | Inl (Inr (Inl (E, n, s, H))) \<Rightarrow> 5 * size n + 3
    | Inl (Inr (Inr (E, n, s, H))) \<Rightarrow> 5 * size n + 3
    | Inr (Inl (Inl (E, n, s, H))) \<Rightarrow> 5 * size n + 3
    | Inr (Inl (Inr (E, n, s, t, as, H))) \<Rightarrow> 5 * size n + 2
    | Inr (Inr (Inl (E, cs, p, s, H))) \<Rightarrow> 5 * size_option (size_list size) cs + 1
    | Inr (Inr (Inr (E, xs, p, s, r, H))) \<Rightarrow> 5 * size_list size xs)")
  apply (simp_all add: size_children_less size_content_less)
  done

declare unsupported_def [simp]

lemma fragment_undefined_simp [simp]:
  "fragment_undefined H =
     Inl (TypeError, H @ [object ''#document-fragment'' Fragment (Some []) None])"
  by (simp add: fragment_undefined_def alloc_def)

text \<open>The entry point. \<open>sp\<close> is the optional argument \<^verbatim>\<open>space\<close>.\<close>

definition toParse5 :: "'n env \<Rightarrow> 'n node \<Rightarrow> string option \<Rightarrow> 'n heap
    \<Rightarrow> (error \<times> 'n heap) + (addr \<times> 'n heap)" where
  "toParse5 E tree sp H = one E tree (if sp = Some ''svg'' then svg else html) H"

section \<open>Notions for stating the properties\<close>

text \<open>
  \<open>grows H H'\<close>: the heap \<open>H'\<close> is \<open>H\<close> with objects added; every object of \<open>H\<close> is in
  \<open>H'\<close> at its address, unchanged.
\<close>

definition grows :: "'n heap \<Rightarrow> 'n heap \<Rightarrow> bool" where
  "grows H H' = (length H \<le> length H' \<and> take (length H) H' = H)"

text \<open>The heap a call leaves, whether it returns or throws.\<close>

definition heap_of :: "(error \<times> 'n heap) + ('a \<times> 'n heap) \<Rightarrow> 'n heap" where
  "heap_of r = (case r of Inl (e, H) \<Rightarrow> H | Inr (x, H) \<Rightarrow> H)"

text \<open>
  What a converter leaves: a heap that grew and, when it returns, the address of the
  object it created first. For the child-list transformer: the addresses appended to
  \<open>result\<close> are of objects created by the call.
\<close>

definition fresh_node :: "'n heap \<Rightarrow> (error \<times> 'n heap) + (addr \<times> 'n heap) \<Rightarrow> bool" where
  "fresh_node H r = (grows H (heap_of r) \<and>
     (\<forall>a H'. r = Inr (a, H') \<longrightarrow> a = length H \<and> a < length H'))"

definition fresh_list :: "'n heap \<Rightarrow> addr list \<Rightarrow> (error \<times> 'n heap) + (addr list \<times> 'n heap) \<Rightarrow> bool" where
  "fresh_list H result r = (grows H (heap_of r) \<and>
     (\<forall>res H'. r = Inr (res, H') \<longrightarrow>
        (\<exists>new. res = result @ new \<and> (\<forall>c \<in> set new. length H \<le> c \<and> c < length H'))))"

text \<open>The location the patcher sets for a node, if any (lines 252 to 261).\<close>

definition location :: "'n node \<Rightarrow> 'n location option" where
  "location node =
     (case position node of
        None \<Rightarrow> None
      | Some pos \<Rightarrow>
          (case pos_start pos of
             None \<Rightarrow> None
           | Some st \<Rightarrow>
               (case pos_end pos of
                  None \<Rightarrow> None
                | Some en \<Rightarrow> Some
                    \<lparr>startLine = line st, startCol = column st, startOffset = offset st,
                     endLine = line en, endCol = column en, endOffset = offset en\<rparr>)))"

text \<open>The call throws.\<close>

definition throws :: "(error \<times> 'n heap) + ('a \<times> 'n heap) \<Rightarrow> bool" where
  "throws r = (case r of Inl e \<Rightarrow> True | Inr x \<Rightarrow> False)"

text \<open>
  \<open>visits tree n\<close>: \<open>n\<close> is at a place of \<open>tree\<close> that the conversion of \<open>tree\<close> hands
  to the dispatcher \<open>one\<close>. These are the tree itself, the children of a root or an
  element and, for a template element, the children of its content; the content
  itself goes to \<open>fragment\<close>, not to the dispatcher.
\<close>

inductive visits :: "'n node \<Rightarrow> 'n node \<Rightarrow> bool" where
  here: "visits tree tree"
| in_root: "x \<in> set xs \<Longrightarrow> visits x n \<Longrightarrow> visits (Root p d (Some xs)) n"
| in_element: "x \<in> set xs \<Longrightarrow> visits x n \<Longrightarrow> visits (Element p t ps (Some xs) c) n"
| in_content: "children f = Some xs \<Longrightarrow> x \<in> set xs \<Longrightarrow> visits x n \<Longrightarrow>
     visits (Element p ''template'' ps cs (Some f)) n"

section \<open>The tree a conversion builds\<close>

text \<open>
  A produced tree without addresses: the name, the fields of the kind, the children
  (\<open>None\<close> for a node without \<open>childNodes\<close>), the content of a template and the
  location.
\<close>

datatype 'n tree = Tree (t_nodeName: string) (t_kind: payload)
  (t_childNodes: "'n tree list option") (t_content: "'n tree option")
  (t_location: "'n location option")

text \<open>What reading \<^verbatim>\<open>obj.parentNode\<close> gives; \<open>None\<close> is \<^verbatim>\<open>undefined\<close>.\<close>

definition parent_of :: "'n p5 \<Rightarrow> addr option" where
  "parent_of obj = (case parentNode obj of Some (Some p) \<Rightarrow> Some p | _ \<Rightarrow> None)"

text \<open>
  \<open>represents H a T\<close>: the object at \<open>a\<close> in \<open>H\<close> is the root of a copy of \<open>T\<close>. Its
  \<open>childNodes\<close> are the addresses of objects created after it, no address twice, one
  per child of \<open>T\<close> and in that order; the \<open>parentNode\<close> of each is \<open>a\<close>, assigned once,
  and each represents its child of \<open>T\<close>. The content of a template is a fragment whose
  \<open>parentNode\<close> is undefined and was never assigned. Nothing is said of the
  \<open>parentNode\<close> of the object at \<open>a\<close> itself.
\<close>

fun represents :: "'n heap \<Rightarrow> addr \<Rightarrow> 'n tree \<Rightarrow> bool"
  and represents_children :: "'n heap \<Rightarrow> addr \<Rightarrow> addr list \<Rightarrow> 'n tree list \<Rightarrow> bool" where
  "represents H a (Tree nm k cs ct loc) =
     (a < length H \<and> nodeName (H ! a) = nm \<and> kind (H ! a) = k \<and>
      sourceCodeLocation (H ! a) = loc \<and>
      (case cs of
         None \<Rightarrow> childNodes (H ! a) = None
       | Some ts \<Rightarrow>
           (case childNodes (H ! a) of
              None \<Rightarrow> False
            | Some as \<Rightarrow> represents_children H a as ts)) \<and>
      (case ct of
         None \<Rightarrow> p5_content (H ! a) = None
       | Some f \<Rightarrow>
           (case p5_content (H ! a) of
              None \<Rightarrow> False
            | Some b \<Rightarrow> a < b \<and> parent_of (H ! b) = None \<and> parent_writes (H ! b) = 0 \<and>
                represents H b f)))"
| "represents_children H p [] [] = True"
| "represents_children H p (a # as) (t # ts) =
     (p < a \<and> a \<notin> set as \<and> parent_of (H ! a) = Some p \<and> parent_writes (H ! a) = 1 \<and>
      represents H a t \<and> represents_children H p as ts)"
| "represents_children H p as ts = False"

text \<open>
  The converters read as functions from the source tree to the produced tree, or to
  the exception: the same equations as \<open>one\<close>, \<open>root\<close>, \<open>fragment\<close>, \<open>element\<close>, \<open>h\<close>
  and \<open>all\<close>, without the heap.
\<close>

function tree_of :: "'n env \<Rightarrow> schema \<Rightarrow> 'n node \<Rightarrow> error + 'n tree"
  and root_tree :: "'n env \<Rightarrow> schema \<Rightarrow> 'n node \<Rightarrow> error + 'n tree"
  and fragment_tree :: "'n env \<Rightarrow> schema \<Rightarrow> 'n node \<Rightarrow> error + 'n tree"
  and element_tree :: "'n env \<Rightarrow> schema \<Rightarrow> 'n node \<Rightarrow> error + 'n tree"
  and h_tree :: "'n env \<Rightarrow> schema \<Rightarrow> 'n node \<Rightarrow> string \<Rightarrow> (string \<times> 'n prim) list
    \<Rightarrow> error + 'n tree"
  and all_trees :: "'n env \<Rightarrow> schema \<Rightarrow> 'n node list option \<Rightarrow> error + 'n tree list"
  and all_loop_trees :: "'n env \<Rightarrow> schema \<Rightarrow> 'n node list \<Rightarrow> error + 'n tree list"
where
  "tree_of E schema node =
     (case node of
        Root p d cs \<Rightarrow> root_tree E schema node
      | Element p t ps cs c \<Rightarrow> element_tree E schema node
      | Text p v \<Rightarrow> Inr (Tree ''#text'' (TextNode v) None None (location node))
      | Comment p v \<Rightarrow> Inr (Tree ''#comment'' (CommentNode v) None None (location node))
      | Doctype p \<Rightarrow>
          Inr (Tree ''#documentType'' (DocumentType ''html'' [] []) None None (location node))
      | Unknown p cs \<Rightarrow> Inl UnsupportedNodeKind)"
| "root_tree E schema node =
     (case all_trees E schema (children node) of
        Inl e \<Rightarrow> Inl e
      | Inr ts \<Rightarrow> Inr (Tree ''#document''
          (Document (if data node = Some (Some True) then ''quirks'' else ''no-quirks''))
          (Some ts) None (location node)))"
| "fragment_tree E schema node =
     (case all_trees E schema (children node) of
        Inl e \<Rightarrow> Inl e
      | Inr ts \<Rightarrow> Inr (Tree ''#document-fragment'' Fragment (Some ts) None (location node)))"
| "element_tree E schema node =
     toH (\<lambda>tag as. h_tree E schema node tag as) (without_children node)"
| "h_tree E schema node tag as =
     (case all_trees E (switched schema node) (children node) of
        Inl e \<Rightarrow> Inl e
      | Inr ts \<Rightarrow>
          (if tag = ''template''
           then (case content node of
                   None \<Rightarrow> Inl TypeError
                 | Some c \<Rightarrow>
                     (case fragment_tree E (switched schema node) c of
                        Inl e \<Rightarrow> Inl e
                      | Inr f \<Rightarrow> Inr (Tree tag
                          (ElementNode tag (attrs_loop E schema as [])
                            (ns_at E (Some (space (switched schema node)))))
                          (Some ts) (Some f) (location node))))
           else Inr (Tree tag
                  (ElementNode tag (attrs_loop E schema as [])
                    (ns_at E (Some (space (switched schema node)))))
                  (Some ts) None (location node))))"
| "all_trees E schema cs =
     (case cs of None \<Rightarrow> Inr [] | Some xs \<Rightarrow> all_loop_trees E schema xs)"
| "all_loop_trees E schema [] = Inr []"
| "all_loop_trees E schema (x # xs) =
     (case tree_of E schema x of
        Inl e \<Rightarrow> Inl e
      | Inr t \<Rightarrow>
          (case all_loop_trees E schema xs of
             Inl e \<Rightarrow> Inl e
           | Inr ts \<Rightarrow> Inr (t # ts)))"
  by pat_completeness auto
termination tree_of
  apply (relation "measure (\<lambda>x. case x of
      Inl (Inl (E, s, n)) \<Rightarrow> 5 * size n + 4
    | Inl (Inr (Inl (E, s, n))) \<Rightarrow> 5 * size n + 3
    | Inl (Inr (Inr (E, s, n))) \<Rightarrow> 5 * size n + 3
    | Inr (Inl (Inl (E, s, n))) \<Rightarrow> 5 * size n + 3
    | Inr (Inl (Inr (E, s, n, t, as))) \<Rightarrow> 5 * size n + 2
    | Inr (Inr (Inl (E, s, cs))) \<Rightarrow> 5 * size_option (size_list size) cs + 1
    | Inr (Inr (Inr (E, s, xs))) \<Rightarrow> 5 * size_list size xs)")
  apply (simp_all add: size_children_less size_content_less)
  done

declare tree_of.simps [simp del] root_tree.simps [simp del] fragment_tree.simps [simp del]
  element_tree.simps [simp del] h_tree.simps [simp del] all_trees.simps [simp del]

text \<open>
  Two objects with the same fields but for \<open>parentNode\<close>; two heaps that agree on
  the objects created after \<open>a\<close>.
\<close>

definition same_fields :: "'n p5 \<Rightarrow> 'n p5 \<Rightarrow> bool" where
  "same_fields obj obj' = (nodeName obj' = nodeName obj \<and> kind obj' = kind obj \<and>
     childNodes obj' = childNodes obj \<and> p5_content obj' = p5_content obj \<and>
     sourceCodeLocation obj' = sourceCodeLocation obj)"

definition agree_above :: "addr \<Rightarrow> 'n heap \<Rightarrow> 'n heap \<Rightarrow> bool" where
  "agree_above a H H' = (length H \<le> length H' \<and> (\<forall>b. a < b \<and> b < length H \<longrightarrow> H' ! b = H ! b))"

text \<open>A call on the heap against the function on trees.\<close>

definition refines_node :: "(error \<times> 'n heap) + (addr \<times> 'n heap) \<Rightarrow> error + 'n tree \<Rightarrow> bool" where
  "refines_node r t =
     (case r of
        Inl (e, H') \<Rightarrow> t = Inl e
      | Inr (a, H') \<Rightarrow> (case t of Inl e \<Rightarrow> False | Inr T \<Rightarrow> represents H' a T))"

definition refines_list :: "'n heap \<Rightarrow> addr \<Rightarrow> addr list \<Rightarrow> (error \<times> 'n heap) + (addr list \<times> 'n heap)
    \<Rightarrow> error + 'n tree list \<Rightarrow> bool" where
  "refines_list H p result r t =
     (case r of
        Inl (e, H') \<Rightarrow> t = Inl e
      | Inr (res, H') \<Rightarrow>
          (case t of
             Inl e \<Rightarrow> False
           | Inr Ts \<Rightarrow> (\<exists>new. res = result @ new \<and> (\<forall>c \<in> set new. length H \<le> c) \<and>
               represents_children H' p new Ts)))"

section \<open>Parent links\<close>

text \<open>The children of a node; none when \<^verbatim>\<open>children\<close> is absent.\<close>

definition kids :: "'n node \<Rightarrow> 'n node list" where
  "kids node = (case children node of None \<Rightarrow> [] | Some xs \<Rightarrow> xs)"

lemma size_kids: "x \<in> set (kids node) \<Longrightarrow> size x < size node"
proof (cases "children node")
  case None
  then show "x \<in> set (kids node) \<Longrightarrow> size x < size node" by (simp add: kids_def)
next
  case (Some xs)
  assume "x \<in> set (kids node)"
  with Some have "x \<in> set xs" by (simp add: kids_def)
  then have "size x \<le> size_list size xs" by (rule size_list_estimation') simp
  with size_children [of node] Some show "size x < size node" by simp
qed

lemma size_kids_content: "content node = Some c \<Longrightarrow> x \<in> set (kids c) \<Longrightarrow> size x < size node"
  using size_kids [of x c] size_content [of node c] by simp

text \<open>
  \<open>linked H a node\<close>: the object at \<open>a\<close> has a child list that mirrors the children of
  the source node. The list has one address per source child and no address twice;
  the object at position \<open>i\<close> has \<open>parentNode\<close> \<open>a\<close>, assigned exactly once, and is
  linked in the same way to the source child at position \<open>i\<close>. When the object has a
  \<open>content\<close>, the source node has one, the fragment's \<open>parentNode\<close> is undefined and
  was never assigned, and the fragment's child list mirrors the children of the
  source content.
\<close>

function linked :: "'n heap \<Rightarrow> addr \<Rightarrow> 'n node \<Rightarrow> bool" where
  "linked H a node =
     ((case childNodes (H ! a) of
         None \<Rightarrow> kids node = []
       | Some as \<Rightarrow> length as = length (kids node) \<and> distinct as \<and>
           (\<forall>i < length (kids node). parent_of (H ! (as ! i)) = Some a \<and>
              parent_writes (H ! (as ! i)) = 1 \<and> linked H (as ! i) (kids node ! i))) \<and>
      (case p5_content (H ! a) of
         None \<Rightarrow> True
       | Some f \<Rightarrow>
           (case content node of
              None \<Rightarrow> False
            | Some c \<Rightarrow> parent_of (H ! f) = None \<and> parent_writes (H ! f) = 0 \<and>
                (case childNodes (H ! f) of
                   None \<Rightarrow> False
                 | Some as \<Rightarrow> length as = length (kids c) \<and> distinct as \<and>
                     (\<forall>i < length (kids c). parent_of (H ! (as ! i)) = Some f \<and>
                        parent_writes (H ! (as ! i)) = 1 \<and> linked H (as ! i) (kids c ! i))))))"
  by pat_completeness auto
termination
  apply (relation "measure (\<lambda>(H, a, node). size node)")
  apply (auto intro: size_kids size_kids_content)
  done

declare linked.simps [simp del]

section \<open>A concrete environment\<close>

text \<open>
  For running the model on examples: numbers are integers, written in decimal, and
  the tables hold the entries the examples use (\<^verbatim>\<open>disabled\<close> is a boolean attribute
  of HTML and unknown to SVG; \<^verbatim>\<open>xlink:href\<close> and \<^verbatim>\<open>xmlns\<close> belong to the
  namespaces xlink and xmlns).
\<close>

fun decimal :: "nat \<Rightarrow> string" where
  "decimal n = (if n < 10 then [''0123456789'' ! n]
     else decimal (n div 10) @ [''0123456789'' ! (n mod 10)])"

declare decimal.simps [simp del]

definition env0 :: "int env" where
  "env0 = \<lparr>find = (\<lambda>schema key.
               if key = ''disabled'' \<and> schema = html
               then \<lparr>boolean = True, info_space = Some ''html''\<rparr>
               else if key = ''xlink:href'' then \<lparr>boolean = False, info_space = Some ''xlink''\<rparr>
               else if key = ''xmlns'' then \<lparr>boolean = False, info_space = Some ''xmlns''\<rparr>
               else \<lparr>boolean = False, info_space = None\<rparr>),
           ns = map_of [(''html'', ''http://www.w3.org/1999/xhtml''),
                        (''svg'', ''http://www.w3.org/2000/svg''),
                        (''xlink'', ''http://www.w3.org/1999/xlink''),
                        (''xmlns'', ''http://www.w3.org/2000/xmlns/'')],
           num_String = (\<lambda>n. if n < 0 then CHR ''-'' # decimal (nat (- n)) else decimal (nat n)),
           num_falsy = (\<lambda>n. n = 0)\<rparr>"

text \<open>Example trees.\<close>

definition div_tree :: "'n node" where
  "div_tree = Element None ''div'' []
     (Some [Element None ''svg'' [] (Some [Element None ''rect'' [] (Some []) None]) None,
            Element None ''span'' [] (Some []) None]) None"

definition template_tree :: "'n node" where
  "template_tree = Element None ''template'' [] (Some [])
     (Some (Root None None (Some [Text None ''x''])))"



definition text_abc :: "int node" where
  "text_abc = Text (Some \<lparr>pos_start = Some \<lparr>line = 1, column = 1, offset = Some 0\<rparr>,
                           pos_end = Some \<lparr>line = 1, column = 4, offset = Some 3\<rparr>\<rparr>) ''abc''"

definition unknown_child :: "int node" where
  "unknown_child = Root None None (Some [Text None ''a'', Unknown None None])"

definition template_no_content :: "int node" where
  "template_no_content = Root None None (Some [Element None ''template'' [] (Some []) None])"

definition nested_tree :: "int node" where
  "nested_tree = Root None None
     (Some [Element None ''div'' []
              (Some [Element None ''template'' [] (Some [])
                       (Some (Root None None (Some [Text None ''x''])))]) None,
            Comment None ''c''])"


definition nested_heap :: "int heap" where
  "nested_heap =
    [\<lparr>nodeName = ''#document'', kind = Document ''no-quirks'', childNodes = Some [1, 5],
      parentNode = None, p5_content = None, sourceCodeLocation = None, parent_writes = 0\<rparr>,
     \<lparr>nodeName = ''div'', kind = ElementNode ''div'' [] (Some ''http://www.w3.org/1999/xhtml''),
      childNodes = Some [2], parentNode = Some (Some 0), p5_content = None,
      sourceCodeLocation = None, parent_writes = 1\<rparr>,
     \<lparr>nodeName = ''template'',
      kind = ElementNode ''template'' [] (Some ''http://www.w3.org/1999/xhtml''),
      childNodes = Some [], parentNode = Some (Some 1), p5_content = Some 3,
      sourceCodeLocation = None, parent_writes = 1\<rparr>,
     \<lparr>nodeName = ''#document-fragment'', kind = Fragment, childNodes = Some [4],
      parentNode = None, p5_content = None, sourceCodeLocation = None, parent_writes = 0\<rparr>,
     \<lparr>nodeName = ''#text'', kind = TextNode ''x'', childNodes = None,
      parentNode = Some (Some 3), p5_content = None, sourceCodeLocation = None,
      parent_writes = 1\<rparr>,
     \<lparr>nodeName = ''#comment'', kind = CommentNode ''c'', childNodes = None,
      parentNode = Some (Some 0), p5_content = None, sourceCodeLocation = None,
      parent_writes = 1\<rparr>]"



declare one.simps [simp del] root.simps [simp del] fragment.simps [simp del]
  element.simps [simp del] h.simps [simp del] all.simps [simp del]

section \<open>The attribute loop\<close>



lemma indexOf_neg: "indexOf key c < 0 \<longleftrightarrow> c \<notin> set key"
  by (induction key) (auto simp: Let_def)

lemma indexOf_takeWhile:
  "c \<in> set key \<Longrightarrow> indexOf key c = int (length (takeWhile (\<lambda>x. x \<noteq> c) key))"
  by (induction key) (auto simp: Let_def indexOf_neg)

lemma take_takeWhile: "take (length (takeWhile P xs)) xs = takeWhile P xs"
  by (induction xs) auto

lemma drop_Suc_takeWhile: "drop (Suc (length (takeWhile P xs))) xs = tl (dropWhile P xs)"
  by (induction xs) auto


lemma entry_no_colon:
  "foreign i \<Longrightarrow> CHR '':'' \<notin> set key \<Longrightarrow> entry E i key v =
     \<lparr>name = key, attr_value = (if v = Bool True then [] else String E v),
      prefix = Some [], namespace = Some (ns_at E (info_space i))\<rparr>"
  by (simp add: entry_def Let_def indexOf_neg)

lemma entry_colon:
  "foreign i \<Longrightarrow> CHR '':'' \<in> set key \<Longrightarrow> entry E i key v =
     \<lparr>name = tl (dropWhile (\<lambda>x. x \<noteq> CHR '':'') key),
      attr_value = (if v = Bool True then [] else String E v),
      prefix = Some (takeWhile (\<lambda>x. x \<noteq> CHR '':'') key),
      namespace = Some (ns_at E (info_space i))\<rparr>"
  using indexOf_neg [of key "CHR '':''"]
  by (simp add: entry_def Let_def indexOf_takeWhile slice_from_def slice_to_def
      take_takeWhile nat_add_distrib drop_Suc_takeWhile)

section \<open>Every converter only adds objects\<close>

lemma grows_refl: "grows H H"
  by (simp add: grows_def)

lemma grows_trans: "grows H1 H2 \<Longrightarrow> grows H2 H3 \<Longrightarrow> grows H1 H3"
  unfolding grows_def
  by (metis le_trans take_take min.absorb1)

lemma grows_append: "grows H (H @ ys)"
  by (simp add: grows_def)

lemma grows_length: "grows H H' \<Longrightarrow> length H \<le> length H'"
  by (simp add: grows_def)

lemma grows_nth: "grows H H' \<Longrightarrow> a < length H \<Longrightarrow> H' ! a = H ! a"
  unfolding grows_def by (metis nth_take)

lemma length_update: "length (update a f H) = length H"
  by (simp add: update_def)

lemma grows_update: "grows H H' \<Longrightarrow> length H \<le> a \<Longrightarrow> grows H (update a f H')"
  by (simp add: grows_def update_def)

lemma length_patch: "length (patch node a H) = length H"
  by (simp add: patch_def length_update split: option.splits)

lemma grows_patch: "grows H H' \<Longrightarrow> length H \<le> a \<Longrightarrow> grows H (patch node a H')"
  by (simp add: patch_def grows_update split: option.splits)

lemma length_set_parentNode: "length (set_parentNode c p H) = length H"
  by (simp add: set_parentNode_def length_update)

lemma grows_set_parentNode: "grows H H' \<Longrightarrow> length H \<le> c \<Longrightarrow> grows H (set_parentNode c p H')"
  by (simp add: set_parentNode_def grows_update)


lemma heap_of_simps [simp]: "heap_of (Inl (e, H)) = H" "heap_of (Inr (x, H)) = H"
  by (simp_all add: heap_of_def)

lemma fresh_leaf:
  "fresh_node H (Inr (text_node node H))"
  "fresh_node H (Inr (comment node H))"
  "fresh_node H (Inr (doctype node H))"
  by (simp_all add: fresh_node_def text_node_def comment_def doctype_def alloc_def
      grows_patch grows_append length_patch)

lemma fresh_parent:
  assumes "fresh_list (H @ [obj]) [] (all E cs (length H) schema (H @ [obj]))"
  shows "fresh_node H (case all E cs (length H) schema (H @ [obj]) of
           Inl e \<Rightarrow> Inl e
         | Inr (result, H2) \<Rightarrow>
             Inr (length H, patch node (length H) (update (length H) (f result) H2)))"
proof (cases "all E cs (length H) schema (H @ [obj])")
  case (Inl e)
  then show ?thesis using assms
    by (cases e) (auto simp: fresh_node_def fresh_list_def intro: grows_trans [OF grows_append])
next
  case (Inr r)
  obtain res H2 where r: "r = (res, H2)" by (cases r)
  from assms Inr r have g: "grows (H @ [obj]) H2" by (simp add: fresh_list_def)
  then have "grows H H2" by (rule grows_trans [OF grows_append])
  moreover from g have "length H < length H2" by (auto dest: grows_length)
  ultimately show ?thesis using Inr r
    by (simp add: fresh_node_def grows_patch grows_update length_patch length_update)
qed

lemma frame:
  "fresh_node H (one E node schema H)"
  "fresh_node H (root E node schema H)"
  "fresh_node H (fragment E node schema H)"
  "fresh_node H (element E node schema H)"
  "fresh_node H (h E node schema tag as H)"
  "fresh_list H [] (all E cs p5 schema H)"
  "fresh_list H result (all_loop E xs p5 schema result H)"
proof (induction E node schema H and E node schema H and E node schema H and E node schema H
    and E node schema tag as H and E cs p5 schema H and E xs p5 schema result H
    rule: one_root_fragment_element_h_all_all_loop.induct)
  case (1 E node schema H)
  then show ?case
    by (cases node) (simp_all add: one.simps fresh_leaf, simp add: fresh_node_def grows_refl)
next
  case (2 E node schema H)
  show ?case
    unfolding root.simps alloc_def Let_def prod.case
    by (rule fresh_parent) (rule 2 [unfolded alloc_def, OF refl refl])
next
  case (3 E node schema H)
  show ?case
    unfolding fragment.simps alloc_def Let_def prod.case
    by (rule fresh_parent) (rule 3 [unfolded alloc_def, OF refl refl])
next
  case (4 E node schema H)
  then show ?case by (simp add: element.simps toH_def)
next
  case (5 E node schema tag as H)
  define schema1 where "schema1 = switched schema node"
  define obj :: "'a p5" where "obj = object tag
      (ElementNode tag (attrs_loop E schema as []) (ns_at E (Some (space schema1)))) (Some []) (Some None)"
  define H2 where "H2 = patch node (length H) (H @ [obj])"
  have H2: "grows H H2" "length H < length H2"
    by (simp_all add: H2_def grows_patch grows_append length_patch)
  have IH1: "fresh_list H2 [] (all E (children node) (length H) schema1 H2)"
    unfolding H2_def obj_def schema1_def
    by (rule 5(1) [unfolded alloc_def, OF refl refl refl refl refl])
  show ?case
  proof (cases "all E (children node) (length H) schema1 H2")
    case (Inl e)
    with IH1 H2 show ?thesis
      unfolding h.simps [of E node schema tag as H] Let_def alloc_def prod.case
        schema1_def [symmetric] obj_def [symmetric] H2_def [symmetric]
      by (cases e) (auto simp: fresh_node_def fresh_list_def intro: grows_trans)
  next
    case (Inr r)
    obtain result H3 where r: "r = (result, H3)" by (cases r)
    define H4 where "H4 = update (length H) (\<lambda>obj. obj\<lparr>childNodes := Some result\<rparr>) H3"
    from IH1 Inr r have "grows H2 H3" by (simp add: fresh_list_def)
    with H2 have H3: "grows H H3" "length H < length H3"
      by (auto intro: grows_trans dest: grows_length)
    then have H4: "grows H H4" "length H < length H4"
      by (simp_all add: H4_def grows_update length_update)
    have eq: "h E node schema tag as H =
        (if tag = ''template''
         then (case content node of
                 None \<Rightarrow> fragment_undefined H4
               | Some c \<Rightarrow>
                   (case fragment E c schema1 H4 of
                      Inl e \<Rightarrow> Inl e
                    | Inr (f, H5) \<Rightarrow>
                        Inr (length H, update (length H) (\<lambda>obj. obj\<lparr>p5_content := Some f\<rparr>) H5)))
         else Inr (length H, H4))"
      unfolding h.simps [of E node schema tag as H] Let_def alloc_def prod.case
        schema1_def [symmetric] obj_def [symmetric] H2_def [symmetric] H4_def
      by (simp add: Inr r)
    show ?thesis
    proof (cases "tag = ''template''")
      case False
      show ?thesis unfolding eq using False H4 by (simp add: fresh_node_def)
    next
      case True
      show ?thesis
      proof (cases "content node")
        case None
        from H4(1) have "grows H (H4 @ [object ''#document-fragment'' Fragment (Some []) None])"
          by (rule grows_trans [OF _ grows_append])
        then show ?thesis unfolding eq using None True by (simp add: fresh_node_def)
      next
        case (Some c)
        have IH2: "fresh_node H4 (fragment E c schema1 H4)"
          unfolding H4_def H2_def obj_def schema1_def
          by (rule 5(2) [unfolded alloc_def, OF refl refl refl refl refl
                Inr [unfolded r H2_def obj_def schema1_def] refl refl True Some])
        show ?thesis
        proof (cases "fragment E c schema1 H4")
          case (Inl e)
          show ?thesis unfolding eq using Inl IH2 H4 True Some
            by (cases e) (auto simp: fresh_node_def intro: grows_trans)
        next
          case (Inr q)
          obtain f H5 where q: "q = (f, H5)" by (cases q)
          from IH2 Inr q have "grows H4 H5" by (simp add: fresh_node_def)
          with H4 have "grows H H5" "length H < length H5"
            by (auto intro: grows_trans dest: grows_length)
          then show ?thesis unfolding eq using True Some Inr q
            by (simp add: fresh_node_def grows_update length_update)
        qed
      qed
    qed
  qed
next
  case (6 E cs p5 schema H)
  then show ?case by (cases cs) (simp_all add: all.simps fresh_list_def grows_refl)
next
  case (7 E p5 schema result H)
  then show ?case by (simp add: fresh_list_def grows_refl)
next
  case (8 E x xs p5 schema result H)
  show ?case
  proof (cases "one E x schema H")
    case (Inl e)
    with 8(1) show ?thesis
      by (cases e) (simp add: fresh_node_def fresh_list_def)
  next
    case (Inr r)
    obtain child H1 where r: "r = (child, H1)" by (cases r)
    define H1' where "H1' = set_parentNode child p5 H1"
    from 8(1) Inr r have c: "grows H H1" "child = length H" "child < length H1"
      by (simp_all add: fresh_node_def)
    then have g: "grows H H1'" "length H1' = length H1"
      by (simp_all add: H1'_def grows_set_parentNode length_set_parentNode)
    have IH: "fresh_list H1' (result @ [child])
        (all_loop E xs p5 schema (result @ [child]) H1')"
      unfolding H1'_def by (rule 8(2) [OF Inr [unfolded r] refl])
    have eq: "all_loop E (x # xs) p5 schema result H =
        all_loop E xs p5 schema (result @ [child]) H1'"
      by (simp add: Inr r H1'_def)
    show ?thesis
      unfolding eq fresh_list_def
    proof (intro conjI allI impI)
      from IH have "grows H1' (heap_of (all_loop E xs p5 schema (result @ [child]) H1'))"
        by (simp add: fresh_list_def)
      with g show "grows H (heap_of (all_loop E xs p5 schema (result @ [child]) H1'))"
        by (blast intro: grows_trans)
    next
      fix res H'
      assume a: "all_loop E xs p5 schema (result @ [child]) H1' = Inr (res, H')"
      with IH obtain new where new: "res = (result @ [child]) @ new"
          "\<forall>c \<in> set new. length H1' \<le> c \<and> c < length H'"
        by (auto simp: fresh_list_def)
      from IH a have "grows H1' H'" by (simp add: fresh_list_def)
      then have "length H1' \<le> length H'" by (rule grows_length)
      with new c g show "\<exists>new. res = result @ new \<and>
          (\<forall>c \<in> set new. length H \<le> c \<and> c < length H')"
        by (intro exI [of _ "child # new"]) auto
    qed
  qed
qed

section \<open>The object a converter returns\<close>

lemma patch_location:
  "patch node a H =
     (case location node of None \<Rightarrow> H
      | Some l \<Rightarrow> update a (\<lambda>obj. obj\<lparr>sourceCodeLocation := Some l\<rparr>) H)"
  by (simp add: patch_def location_def split: option.splits)

lemma nth_update: "a < length H \<Longrightarrow> update a f H ! a = f (H ! a)"
  by (simp add: update_def)

lemma nth_update_other: "b \<noteq> a \<Longrightarrow> update a f H ! b = H ! b"
  by (simp add: update_def)

text \<open>The object a patched literal becomes.\<close>

lemma patch_nth:
  assumes "a < length H" "sourceCodeLocation (H ! a) = None"
  shows "patch node a H ! a = (H ! a)\<lparr>sourceCodeLocation := location node\<rparr>"
proof (cases "location node")
  case None
  with assms(2) show ?thesis
    by (cases "H ! a") (simp add: patch_location)
next
  case (Some l)
  with assms(1) show ?thesis
    by (simp add: patch_location nth_update)
qed

lemma patch_new:
  "sourceCodeLocation obj = None \<Longrightarrow>
     patch node (length H) (H @ [obj]) ! length H = obj\<lparr>sourceCodeLocation := location node\<rparr>"
  using patch_nth [of "length H" "H @ [obj]" node] by simp

lemma fresh_listD:
  assumes "fresh_list H result r" "r = Inr (res, H')"
  shows "grows H H'"
  using assms by (auto simp: fresh_list_def)

lemma fresh_nodeD:
  assumes "fresh_node H r" "r = Inr (a, H')"
  shows "grows H H'" "a = length H" "a < length H'"
  using assms by (auto simp: fresh_node_def)

text \<open>What \<open>h\<close> returns, step by step.\<close>

lemma h_Inr:
  assumes "h E node schema tag as H = Inr (a, H')"
  shows "\<exists>result H3. a = length H \<and>
    all E (children node) a (switched schema node) (patch node a (H @ [object tag
      (ElementNode tag (attrs_loop E schema as []) (ns_at E (Some (space (switched schema node)))))
      (Some []) (Some None)])) = Inr (result, H3) \<and>
    (tag \<noteq> ''template'' \<longrightarrow> H' = update a (\<lambda>obj. obj\<lparr>childNodes := Some result\<rparr>) H3) \<and>
    (tag = ''template'' \<longrightarrow> (\<exists>c f H5. content node = Some c \<and>
       fragment E c (switched schema node)
         (update a (\<lambda>obj. obj\<lparr>childNodes := Some result\<rparr>) H3) = Inr (f, H5) \<and>
       H' = update a (\<lambda>obj. obj\<lparr>p5_content := Some f\<rparr>) H5))"
  using assms unfolding h.simps [of E node schema tag as H] alloc_def
  by (auto simp: Let_def split: sum.splits prod.splits if_splits option.splits)

lemma h_final:
  assumes "h E node schema tag as H = Inr (a, H')"
  shows "\<exists>result H3 ct. a = length H \<and> a < length H' \<and>
    all E (children node) a (switched schema node) (patch node (length H) (H @ [object tag
      (ElementNode tag (attrs_loop E schema as []) (ns_at E (Some (space (switched schema node)))))
      (Some []) (Some None)])) = Inr (result, H3) \<and>
    H' ! a = \<lparr>nodeName = tag,
      kind = ElementNode tag (attrs_loop E schema as []) (ns_at E (Some (space (switched schema node)))),
      childNodes = Some result, parentNode = Some None, p5_content = ct,
      sourceCodeLocation = location node, parent_writes = 0\<rparr> \<and>
    (tag \<noteq> ''template'' \<longrightarrow> ct = None \<and>
       H' = update a (\<lambda>obj. obj\<lparr>childNodes := Some result\<rparr>) H3) \<and>
    (tag = ''template'' \<longrightarrow> (\<exists>c f H5. content node = Some c \<and> ct = Some f \<and>
       fragment E c (switched schema node)
         (update a (\<lambda>obj. obj\<lparr>childNodes := Some result\<rparr>) H3) = Inr (f, H5) \<and>
       H' = update a (\<lambda>obj. obj\<lparr>p5_content := Some f\<rparr>) H5))"
proof -
  define schema1 where "schema1 = switched schema node"
  define obj :: "'a p5" where "obj = object tag
      (ElementNode tag (attrs_loop E schema as []) (ns_at E (Some (space schema1))))
      (Some []) (Some None)"
  define H2 where "H2 = patch node a (H @ [obj])"
  from h_Inr [OF assms] obtain result H3 where r: "a = length H"
    "all E (children node) a schema1 H2 = Inr (result, H3)"
    "tag \<noteq> ''template'' \<longrightarrow> H' = update a (\<lambda>obj. obj\<lparr>childNodes := Some result\<rparr>) H3"
    "tag = ''template'' \<longrightarrow> (\<exists>c f H5. content node = Some c \<and>
       fragment E c schema1 (update a (\<lambda>obj. obj\<lparr>childNodes := Some result\<rparr>) H3) = Inr (f, H5) \<and>
       H' = update a (\<lambda>obj. obj\<lparr>p5_content := Some f\<rparr>) H5)"
    unfolding schema1_def obj_def H2_def by blast
  define H4 where "H4 = update a (\<lambda>obj. obj\<lparr>childNodes := Some result\<rparr>) H3"
  have H2: "length H2 = Suc a" "H2 ! a = obj\<lparr>sourceCodeLocation := location node\<rparr>"
    by (simp_all add: H2_def r(1) patch_new length_patch obj_def object_def)
  have "grows H2 H3"
    using frame(6) [of H2 E "children node" a schema1] r(2) by (rule fresh_listD)
  with H2 have H3: "a < length H3" "H3 ! a = obj\<lparr>sourceCodeLocation := location node\<rparr>"
    using grows_length [of H2 H3] grows_nth [of H2 H3 a] by simp_all
  then have H4: "a < length H4"
    "H4 ! a = obj\<lparr>sourceCodeLocation := location node, childNodes := Some result\<rparr>"
    by (simp_all add: H4_def length_update nth_update)
  show ?thesis
  proof (cases "tag = ''template''")
    case False
    with r H4 show ?thesis
      unfolding schema1_def [symmetric] obj_def [symmetric] H2_def [symmetric]
      by (intro exI [of _ result] exI [of _ H3] exI [of _ None])
        (simp add: H4_def H2_def obj_def object_def)
  next
    case True
    with r(4) obtain c f H5 where f: "content node = Some c"
      "fragment E c schema1 H4 = Inr (f, H5)"
      "H' = update a (\<lambda>obj. obj\<lparr>p5_content := Some f\<rparr>) H5"
      by (auto simp: H4_def)
    have "grows H4 H5"
      using frame(3) [of H4 E c schema1] f(2) by (rule fresh_nodeD)
    with H4 have "a < length H5"
      "H5 ! a = obj\<lparr>sourceCodeLocation := location node, childNodes := Some result\<rparr>"
      using grows_length [of H4 H5] grows_nth [of H4 H5 a] by simp_all
    with r f True show ?thesis
      unfolding schema1_def [symmetric] obj_def [symmetric] H2_def [symmetric]
      by (intro exI [of _ result] exI [of _ H3] exI [of _ "Some f"])
        (simp add: H4_def H2_def length_update nth_update obj_def object_def)
  qed
qed

lemma h_object:
  assumes "h E node schema tag as H = Inr (a, H')"
  shows "a = length H" "a < length H'" "nodeName (H' ! a) = tag"
    "kind (H' ! a) = ElementNode tag (attrs_loop E schema as [])
       (ns_at E (Some (space (switched schema node))))"
    "sourceCodeLocation (H' ! a) = location node"
    "parentNode (H' ! a) = Some None" "parent_writes (H' ! a) = 0"
  using h_final [OF assms] by auto

text \<open>What \<open>root\<close> and \<open>fragment\<close> return.\<close>

lemma parent_Inr:
  assumes "(case all E cs (length H) schema (H @ [obj]) of
           Inl e \<Rightarrow> Inl e
         | Inr (result, H2) \<Rightarrow>
             Inr (length H, patch node (length H)
               (update (length H) (\<lambda>obj. obj\<lparr>childNodes := Some result\<rparr>) H2))) = Inr (a, H')"
    and "sourceCodeLocation obj = None"
  shows "\<exists>result H2. a = length H \<and> a < length H' \<and>
    all E cs a schema (H @ [obj]) = Inr (result, H2) \<and>
    H' = patch node a (update a (\<lambda>obj. obj\<lparr>childNodes := Some result\<rparr>) H2) \<and>
    H' ! a = obj\<lparr>childNodes := Some result, sourceCodeLocation := location node\<rparr>"
proof -
  from assms(1) obtain result H2 where r: "a = length H"
    "all E cs a schema (H @ [obj]) = Inr (result, H2)"
    "H' = patch node a (update a (\<lambda>obj. obj\<lparr>childNodes := Some result\<rparr>) H2)"
    by (auto split: sum.splits prod.splits)
  have g: "grows (H @ [obj]) H2"
    using frame(6) [of "H @ [obj]" E cs a schema] r(2) by (rule fresh_listD)
  then have "a < length H2" "H2 ! a = obj"
    using grows_length [of "H @ [obj]" H2] grows_nth [of "H @ [obj]" H2 a] by (simp_all add: r(1))
  with assms(2) have "a < length H'"
      "H' ! a = obj\<lparr>childNodes := Some result, sourceCodeLocation := location node\<rparr>"
    by (simp_all add: r(3) length_patch length_update patch_nth nth_update)
  with r show ?thesis by blast
qed


lemma leaf_object:
  assumes "(a, H') = text_node node H \<or> (a, H') = comment node H \<or> (a, H') = doctype node H"
  shows "a = length H" "a < length H'" "sourceCodeLocation (H' ! a) = location node"
    "parentNode (H' ! a) = Some None" "parent_writes (H' ! a) = 0"
    "childNodes (H' ! a) = None" "p5_content (H' ! a) = None"
  using assms
  by (auto simp: text_node_def comment_def doctype_def alloc_def length_patch patch_new object_def)

lemma root_object:
  assumes "root E node schema H = Inr (a, H')"
  shows "a = length H" "a < length H'" "sourceCodeLocation (H' ! a) = location node"
    "parentNode (H' ! a) = None" "parent_writes (H' ! a) = 0"
  using parent_Inr [OF assms [unfolded root.simps alloc_def Let_def prod.case]]
  by (auto simp: object_def)

lemma fragment_object:
  assumes "fragment E node schema H = Inr (a, H')"
  shows "a = length H" "a < length H'" "sourceCodeLocation (H' ! a) = location node"
    "parentNode (H' ! a) = None" "parent_writes (H' ! a) = 0"
  using parent_Inr [OF assms [unfolded fragment.simps alloc_def Let_def prod.case]]
  by (auto simp: object_def)

lemma element_h:
  "element E (Element p t ps cs c) schema H = h E (Element p t ps cs c) schema t ps H"
  by (simp add: element.simps toH_def without_children_def)

lemma one_object:
  assumes "one E node schema H = Inr (a, H')"
  shows "a = length H" "a < length H'" "sourceCodeLocation (H' ! a) = location node"
    "parentNode (H' ! a) = None \<or> parentNode (H' ! a) = Some None" "parent_writes (H' ! a) = 0"
proof -
  have "a = length H \<and> a < length H' \<and> sourceCodeLocation (H' ! a) = location node \<and>
    (parentNode (H' ! a) = None \<or> parentNode (H' ! a) = Some None) \<and> parent_writes (H' ! a) = 0"
  proof (cases node)
    case (Root p d cs)
    with assms have "root E node schema H = Inr (a, H')" by (simp add: one.simps)
    then show ?thesis by (simp add: root_object)
  next
    case (Element p t ps cs c)
    with assms have "h E node schema t ps H = Inr (a, H')" by (simp add: one.simps element_h)
    then show ?thesis by (simp add: h_object)
  next
    case (Text p v)
    with assms have "(a, H') = text_node node H" by (simp add: one.simps)
    then show ?thesis using leaf_object [of a H' node H] by simp
  next
    case (Comment p v)
    with assms have "(a, H') = comment node H" by (simp add: one.simps)
    then show ?thesis using leaf_object [of a H' node H] by simp
  next
    case (Doctype p)
    with assms have "(a, H') = doctype node H" by (simp add: one.simps)
    then show ?thesis using leaf_object [of a H' node H] by simp
  next
    case (Unknown p cs)
    with assms show ?thesis by (simp add: one.simps)
  qed
  then show "a = length H" "a < length H'" "sourceCodeLocation (H' ! a) = location node"
    "parentNode (H' ! a) = None \<or> parentNode (H' ! a) = Some None" "parent_writes (H' ! a) = 0"
    by blast+
qed

section \<open>Exceptions propagate\<close>

lemma throws_simps [simp]: "throws (Inl e)" "\<not> throws (Inr x)"
  by (simp_all add: throws_def)

lemma throws_case [simp]:
  "throws r \<Longrightarrow> throws (case r of Inl e \<Rightarrow> Inl e | Inr x \<Rightarrow> f x)"
  by (cases r) simp_all

lemma all_loop_throws:
  assumes "x \<in> set xs" "\<And>schema H. throws (one E x schema H)"
  shows "throws (all_loop E xs p5 schema result H)"
  using assms(1)
proof (induction xs arbitrary: result H)
  case Nil
  then show ?case by simp
next
  case (Cons y ys)
  show ?case
  proof (cases "one E y schema H")
    case (Inl e)
    then show ?thesis by simp
  next
    case (Inr r)
    with assms(2) [of schema H] have "y \<noteq> x" by auto
    with Cons.prems have "x \<in> set ys" by simp
    with Inr Cons.IH show ?thesis by (simp split: prod.splits)
  qed
qed

lemma all_throws:
  "x \<in> set xs \<Longrightarrow> (\<And>schema H. throws (one E x schema H)) \<Longrightarrow>
     throws (all E (Some xs) p5 schema H)"
  by (simp add: all.simps all_loop_throws)

lemma root_throws:
  "throws (all E (children node) (length H) schema (H @ [object ''#document''
      (Document (if data node = Some (Some True) then ''quirks'' else ''no-quirks''))
      (Some []) None])) \<Longrightarrow> throws (root E node schema H)"
  by (simp add: root.simps alloc_def)

lemma fragment_throws:
  "throws (all E (children node) (length H) schema
      (H @ [object ''#document-fragment'' Fragment (Some []) None])) \<Longrightarrow>
   throws (fragment E node schema H)"
  by (simp add: fragment.simps alloc_def)

lemma h_throws:
  assumes "\<And>p5 H. throws (all E (children node) p5 (switched schema node) H) \<or>
     (tag = ''template'' \<and> (content node = None \<or>
        (\<exists>c. content node = Some c \<and> (\<forall>H. throws (fragment E c (switched schema node) H)))))"
  shows "throws (h E node schema tag as H)"
proof -
  define H2 where "H2 = patch node (length H) (H @ [object tag
      (ElementNode tag (attrs_loop E schema as []) (ns_at E (Some (space (switched schema node)))))
      (Some []) (Some None)])"
  show ?thesis
  proof (cases "all E (children node) (length H) (switched schema node) H2")
    case (Inl e)
    then show ?thesis
      unfolding h.simps [of E node schema tag as H] alloc_def Let_def prod.case H2_def by simp
  next
    case (Inr r)
    with assms [of "length H" H2] have "tag = ''template'' \<and> (content node = None \<or>
        (\<exists>c. content node = Some c \<and> (\<forall>H. throws (fragment E c (switched schema node) H))))"
      by auto
    with Inr show ?thesis
      unfolding h.simps [of E node schema tag as H] alloc_def Let_def prod.case H2_def
      by (auto split: prod.splits)
  qed
qed

lemma one_Root: "one E (Root p d cs) schema H = root E (Root p d cs) schema H"
  by (simp add: one.simps)

lemma one_Element:
  "one E (Element p t ps cs c) schema H = h E (Element p t ps cs c) schema t ps H"
  by (simp add: one.simps element_h)

lemma visits_throws:
  "visits tree n \<Longrightarrow> \<forall>schema H. throws (one E n schema H) \<Longrightarrow> throws (one E tree schema H)"
proof (induction arbitrary: schema H rule: visits.induct)
  case (here tree)
  then show ?case by simp
next
  case (in_root x xs n p d)
  then have x: "throws (one E x s H)" for s H by simp
  show ?case
    unfolding one_Root by (rule root_throws) (simp add: all_throws [OF in_root(1) x])
next
  case (in_element x xs n p t ps c)
  then have x: "throws (one E x s H)" for s H by simp
  show ?case
    unfolding one_Element by (rule h_throws) (simp add: all_throws [OF in_element(1) x])
next
  case (in_content f xs x n p ps cs)
  then have x: "throws (one E x s H)" for s H by simp
  have "throws (fragment E f s H)" for s H
    by (rule fragment_throws) (simp add: in_content(1) all_throws [OF in_content(2) x])
  then show ?case
    unfolding one_Element by - (rule h_throws, simp)
qed

lemma template_without_content_throws:
  "throws (one E (Element p ''template'' ps cs None) schema H)"
  by (simp add: one_Element) (rule h_throws, simp)

lemma unknown_throws: "throws (one E (Unknown p cs) schema H)"
  by (simp add: one.simps)

section \<open>The heap holds the tree\<close>

lemma represents_bound: "represents H a T \<Longrightarrow> a < length H"
  by (cases T) simp

lemma agree_above_mono: "agree_above p H H' \<Longrightarrow> p \<le> a \<Longrightarrow> agree_above a H H'"
  by (simp add: agree_above_def)

lemma agree_above_nth: "agree_above p H H' \<Longrightarrow> p < b \<Longrightarrow> b < length H \<Longrightarrow> H' ! b = H ! b"
  by (simp add: agree_above_def)

lemma same_fields_refl: "same_fields obj obj"
  by (simp add: same_fields_def)

lemma stable:
  "represents H a T \<Longrightarrow> agree_above a H H' \<Longrightarrow> same_fields (H ! a) (H' ! a) \<Longrightarrow>
     represents H' a T"
  "represents_children H p as ts \<Longrightarrow> agree_above p H H' \<Longrightarrow> represents_children H' p as ts"
proof (induction H a T and H p as ts rule: represents_represents_children.induct)
  case (1 H a nm k cs ct loc)
  from 1(3) have base: "a < length H'" "nodeName (H' ! a) = nm" "kind (H' ! a) = k"
    "sourceCodeLocation (H' ! a) = loc"
    using 1(4,5) by (auto simp: agree_above_def same_fields_def)
  have kids: "(case cs of
         None \<Rightarrow> childNodes (H' ! a) = None
       | Some ts \<Rightarrow>
           (case childNodes (H' ! a) of
              None \<Rightarrow> False
            | Some as \<Rightarrow> represents_children H' a as ts))"
  proof (cases cs)
    case None
    with 1(3,5) show ?thesis by (simp add: same_fields_def)
  next
    case (Some ts)
    with 1(3) obtain as where as: "childNodes (H ! a) = Some as" "represents_children H a as ts"
      by (auto split: option.splits)
    from 1(1) [OF Some as(1) as(2) 1(4)] as(1) 1(5) Some show ?thesis
      by (simp add: same_fields_def)
  qed
  have cont: "(case ct of
         None \<Rightarrow> p5_content (H' ! a) = None
       | Some f \<Rightarrow>
           (case p5_content (H' ! a) of
              None \<Rightarrow> False
            | Some b \<Rightarrow> a < b \<and> parent_of (H' ! b) = None \<and> parent_writes (H' ! b) = 0 \<and>
                represents H' b f))"
  proof (cases ct)
    case None
    with 1(3,5) show ?thesis by (simp add: same_fields_def)
  next
    case (Some f)
    with 1(3) obtain b where b: "p5_content (H ! a) = Some b" "a < b"
      "parent_of (H ! b) = None" "parent_writes (H ! b) = 0" "represents H b f"
      by (auto split: option.splits)
    from b(5) have "b < length H" by (rule represents_bound)
    with 1(4) b(2) have eq: "H' ! b = H ! b" by (simp add: agree_above_nth)
    from 1(4) b(2) have "agree_above b H H'" by (simp add: agree_above_mono)
    from 1(2) [OF Some b(1) b(5) this] eq have "represents H' b f"
      by (simp add: same_fields_refl)
    with b eq 1(5) Some show ?thesis by (simp add: same_fields_def)
  qed
  from base kids cont show ?case by simp
next
  case (2 H p)
  show ?case by simp
next
  case (3 H p a as t ts)
  from 3(3) have a: "p < a" "a \<notin> set as" "parent_of (H ! a) = Some p"
    "parent_writes (H ! a) = 1" "represents H a t" "represents_children H p as ts"
    by simp_all
  from a(5) have "a < length H" by (rule represents_bound)
  with 3(4) a(1) have eq: "H' ! a = H ! a" by (simp add: agree_above_nth)
  from 3(4) a(1) have "agree_above a H H'" by (simp add: agree_above_mono)
  from 3(1) [OF a(5) this] eq have "represents H' a t" by (simp add: same_fields_refl)
  moreover from 3(2) [OF a(6) 3(4)] have "represents_children H' p as ts" .
  ultimately show ?case using a eq by simp
qed simp_all

lemma agree_above_grows: "grows H H' \<Longrightarrow> agree_above a H H'"
  by (simp add: agree_above_def grows_length grows_nth)

lemma agree_above_trans: "agree_above a H1 H2 \<Longrightarrow> agree_above a H2 H3 \<Longrightarrow> agree_above a H1 H3"
  by (auto simp: agree_above_def)

lemma agree_above_update: "agree_above a H (update a f H)"
  by (simp add: agree_above_def update_def)

lemma agree_above_refl: "agree_above a H H"
  by (simp add: agree_above_def)

lemma agree_above_patch: "agree_above a H (patch node a H)"
  by (cases "location node") (simp_all add: patch_location agree_above_update agree_above_refl)

lemma patch_append:
  "sourceCodeLocation obj = None \<Longrightarrow>
     patch node (length H) (H @ [obj]) = H @ [obj\<lparr>sourceCodeLocation := location node\<rparr>]"
  by (cases obj) (simp add: patch_location update_def split: option.splits)

lemma refines_leaf:
  "refines_node (Inr (text_node (Text p v) H))
     (Inr (Tree ''#text'' (TextNode v) None None (location (Text p v))))"
  "refines_node (Inr (comment (Comment p v) H))
     (Inr (Tree ''#comment'' (CommentNode v) None None (location (Comment p v))))"
  "refines_node (Inr (doctype (Doctype p) H))
     (Inr (Tree ''#documentType'' (DocumentType ''html'' [] []) None None (location (Doctype p))))"
  by (simp_all add: refines_node_def text_node_def comment_def doctype_def alloc_def
      patch_append object_def)

text \<open>\<open>root\<close> and \<open>fragment\<close>: the object, its children.\<close>

lemma refines_parent:
  assumes IH: "refines_list (H @ [obj]) (length H) []
      (all E cs (length H) schema (H @ [obj])) ts"
    and obj: "obj = object nm k (Some []) None"
  shows "refines_node
     (case all E cs (length H) schema (H @ [obj]) of
        Inl e \<Rightarrow> Inl e
      | Inr (result, H2) \<Rightarrow>
          Inr (length H, patch node (length H)
            (update (length H) (\<lambda>obj. obj\<lparr>childNodes := Some result\<rparr>) H2)))
     (case ts of Inl e \<Rightarrow> Inl e | Inr Ts \<Rightarrow> Inr (Tree nm k (Some Ts) None (location node)))"
proof (cases "all E cs (length H) schema (H @ [obj])")
  case (Inl e)
  with IH show ?thesis by (cases e) (simp add: refines_list_def refines_node_def)
next
  case (Inr r)
  obtain result H2 where r: "r = (result, H2)" by (cases r)
  define H' where "H' = patch node (length H)
            (update (length H) (\<lambda>obj. obj\<lparr>childNodes := Some result\<rparr>) H2)"
  from IH Inr r obtain Ts where Ts: "ts = Inr Ts" "represents_children H2 (length H) result Ts"
    by (auto simp: refines_list_def split: sum.splits)
  have eq: "(case all E cs (length H) schema (H @ [obj]) of
        Inl e \<Rightarrow> Inl e
      | Inr (result, H2) \<Rightarrow>
          Inr (length H, patch node (length H)
            (update (length H) (\<lambda>obj. obj\<lparr>childNodes := Some result\<rparr>) H2))) =
      Inr (length H, H')"
    by (simp add: Inr r H'_def)
  from parent_Inr [OF eq] obj Inr r
  have a: "length H < length H'"
    "H' ! length H = obj\<lparr>childNodes := Some result, sourceCodeLocation := location node\<rparr>"
    by (auto simp: object_def)
  have "agree_above (length H) H2 H'"
    unfolding H'_def
    by (rule agree_above_trans [OF agree_above_update agree_above_patch])
  with Ts(2) have "represents_children H' (length H) result Ts" by (rule stable(2))
  with a Ts(1) show ?thesis
    unfolding eq by (simp add: refines_node_def obj object_def)
qed


lemma h_unfold:
  "h E node schema tag as H =
     (case all E (children node) (length H) (switched schema node)
        (patch node (length H) (H @ [object tag
           (ElementNode tag (attrs_loop E schema as [])
              (ns_at E (Some (space (switched schema node))))) (Some []) (Some None)])) of
        Inl e \<Rightarrow> Inl e
      | Inr (result, H3) \<Rightarrow>
          (if tag = ''template''
           then (case content node of
                   None \<Rightarrow> fragment_undefined
                       (update (length H) (\<lambda>obj. obj\<lparr>childNodes := Some result\<rparr>) H3)
                 | Some c \<Rightarrow>
                     (case fragment E c (switched schema node)
                         (update (length H) (\<lambda>obj. obj\<lparr>childNodes := Some result\<rparr>) H3) of
                        Inl e \<Rightarrow> Inl e
                      | Inr (f, H5) \<Rightarrow>
                          Inr (length H,
                            update (length H) (\<lambda>obj. obj\<lparr>p5_content := Some f\<rparr>) H5)))
           else Inr (length H,
                  update (length H) (\<lambda>obj. obj\<lparr>childNodes := Some result\<rparr>) H3)))"
  unfolding h.simps [of E node schema tag as H] alloc_def Let_def prod.case ..

lemma refines_h:
  assumes IH1: "refines_list H2 (length H) [] (all E (children node) (length H) schema1 H2)
      (all_trees E schema1 (children node))"
    and IH2: "\<And>result H3 c. all E (children node) (length H) schema1 H2 = Inr (result, H3) \<Longrightarrow>
      tag = ''template'' \<Longrightarrow> content node = Some c \<Longrightarrow>
      refines_node (fragment E c schema1
          (update (length H) (\<lambda>obj. obj\<lparr>childNodes := Some result\<rparr>) H3))
        (fragment_tree E schema1 c)"
    and schema1: "schema1 = switched schema node"
    and H2: "H2 = patch node (length H) (H @ [object tag
           (ElementNode tag (attrs_loop E schema as []) (ns_at E (Some (space schema1))))
           (Some []) (Some None)])"
  shows "refines_node (h E node schema tag as H) (h_tree E schema node tag as)"
proof (cases "h E node schema tag as H")
  case (Inl q)
  obtain e H' where q: "q = (e, H')" by (cases q)
  have hu: "h E node schema tag as H =
     (case all E (children node) (length H) schema1 H2 of
        Inl e \<Rightarrow> Inl e
      | Inr (result, H3) \<Rightarrow>
          (if tag = ''template''
           then (case content node of
                   None \<Rightarrow> fragment_undefined
                       (update (length H) (\<lambda>obj. obj\<lparr>childNodes := Some result\<rparr>) H3)
                 | Some c \<Rightarrow>
                     (case fragment E c schema1
                         (update (length H) (\<lambda>obj. obj\<lparr>childNodes := Some result\<rparr>) H3) of
                        Inl e \<Rightarrow> Inl e
                      | Inr (f, H5) \<Rightarrow>
                          Inr (length H,
                            update (length H) (\<lambda>obj. obj\<lparr>p5_content := Some f\<rparr>) H5)))
           else Inr (length H,
                  update (length H) (\<lambda>obj. obj\<lparr>childNodes := Some result\<rparr>) H3)))"
    unfolding schema1 H2 by (rule h_unfold)
  have "h_tree E schema node tag as = Inl e"
  proof (cases "all E (children node) (length H) schema1 H2")
    case Inl2: (Inl q2)
    with Inl q hu have "q2 = (e, H')" by simp
    with Inl2 IH1 show ?thesis
      by (simp add: refines_list_def schema1 h_tree.simps)
  next
    case (Inr r)
    obtain result H3 where r: "r = (result, H3)" by (cases r)
    from IH1 Inr r obtain Ts where Ts: "all_trees E schema1 (children node) = Inr Ts"
      by (auto simp: refines_list_def split: sum.splits)
    from hu Inl q have hv: "(if tag = ''template''
           then (case content node of
                   None \<Rightarrow> fragment_undefined
                       (update (length H) (\<lambda>obj. obj\<lparr>childNodes := Some result\<rparr>) H3)
                 | Some c \<Rightarrow>
                     (case fragment E c schema1
                         (update (length H) (\<lambda>obj. obj\<lparr>childNodes := Some result\<rparr>) H3) of
                        Inl e \<Rightarrow> Inl e
                      | Inr (f, H5) \<Rightarrow>
                          Inr (length H,
                            update (length H) (\<lambda>obj. obj\<lparr>p5_content := Some f\<rparr>) H5)))
           else Inr (length H,
                  update (length H) (\<lambda>obj. obj\<lparr>childNodes := Some result\<rparr>) H3)) =
        Inl (e, H')"
      by (simp add: Inr r)
    then have t: "tag = ''template''" by (simp split: if_splits)
    show ?thesis
    proof (cases "content node")
      case None
      with hv t have "e = TypeError" by simp
      with None t Ts show ?thesis by (simp add: schema1 [symmetric] h_tree.simps)
    next
      case (Some c)
      with hv t have "fragment E c schema1
          (update (length H) (\<lambda>obj. obj\<lparr>childNodes := Some result\<rparr>) H3) = Inl (e, H')"
        by (simp split: sum.splits prod.splits)
      with IH2 [OF Inr [unfolded r] t Some] have "fragment_tree E schema1 c = Inl e"
        by (simp add: refines_node_def)
      with Some t Ts show ?thesis by (simp add: schema1 [symmetric] h_tree.simps)
    qed
  qed
  with Inl q show ?thesis by (simp add: refines_node_def)
next
  case (Inr q)
  obtain a H' where q: "q = (a, H')" by (cases q)
  define k where "k = ElementNode tag (attrs_loop E schema as []) (ns_at E (Some (space schema1)))"
  note hf = h_final [OF Inr [unfolded q], folded schema1, folded H2, folded k_def]
  from hf obtain result H3 ct where f:
    "a = length H" "a < length H'"
    "all E (children node) a schema1 H2 = Inr (result, H3)"
    "H' ! a = \<lparr>nodeName = tag, kind = k, childNodes = Some result, parentNode = Some None,
       p5_content = ct, sourceCodeLocation = location node, parent_writes = 0\<rparr>"
    "tag \<noteq> ''template'' \<longrightarrow> ct = None \<and>
       H' = update a (\<lambda>obj. obj\<lparr>childNodes := Some result\<rparr>) H3"
    "tag = ''template'' \<longrightarrow> (\<exists>c f H5. content node = Some c \<and> ct = Some f \<and>
       fragment E c schema1 (update a (\<lambda>obj. obj\<lparr>childNodes := Some result\<rparr>) H3) = Inr (f, H5) \<and>
       H' = update a (\<lambda>obj. obj\<lparr>p5_content := Some f\<rparr>) H5)"
    by blast
  from IH1 f(1,3) obtain Ts where Ts: "all_trees E schema1 (children node) = Inr Ts"
    "represents_children H3 a result Ts"
    by (auto simp: refines_list_def split: sum.splits)
  define H4 where "H4 = update a (\<lambda>obj. obj\<lparr>childNodes := Some result\<rparr>) H3"
  have H4: "agree_above a H3 H4" unfolding H4_def by (rule agree_above_update)
  show ?thesis
  proof (cases "tag = ''template''")
    case False
    with f(5) have "H' = H4" "ct = None" by (simp_all add: H4_def)
    with Ts(2) H4 have "represents_children H' a result Ts" by (auto intro: stable(2))
    with f(2,4) \<open>ct = None\<close> have "represents H' a (Tree tag k (Some Ts) None (location node))"
      by simp
    with False Ts(1) show ?thesis
      unfolding Inr q refines_node_def
      by (simp add: schema1 [symmetric] k_def h_tree.simps)
  next
    case True
    with f(6) obtain c b H5 where c: "content node = Some c" "ct = Some b"
      "fragment E c schema1 H4 = Inr (b, H5)"
      "H' = update a (\<lambda>obj. obj\<lparr>p5_content := Some b\<rparr>) H5"
      by (auto simp: H4_def)
    from IH2 [OF f(3) [unfolded f(1)] True c(1)] c(3) obtain F where F:
      "fragment_tree E schema1 c = Inr F" "represents H5 b F"
      by (auto simp: refines_node_def H4_def f(1) split: sum.splits)
    have "grows H4 H5" "b = length H4"
      using frame(3) [of H4 E c schema1] c(3) by (rule fresh_nodeD)+
    moreover have "a < length H4"
    proof -
      have "grows H2 H3"
        using frame(6) [of H2 E "children node" a schema1] f(3) by (rule fresh_listD)
      then have "length H2 \<le> length H3" by (rule grows_length)
      then show ?thesis by (simp add: H4_def length_update H2 length_patch f(1))
    qed
    ultimately have ab: "a < b" "agree_above a H4 H5" by (simp_all add: agree_above_grows)
    have upd: "agree_above a H5 H'" unfolding c(4) by (rule agree_above_update)
    from H4 ab(2) upd have "agree_above a H3 H'" by (blast intro: agree_above_trans)
    with Ts(2) have kids: "represents_children H' a result Ts" by (rule stable(2))
    from ab(1) have eq: "H' ! b = H5 ! b" by (simp add: c(4) nth_update_other)
    from upd ab(1) have "agree_above b H5 H'" by (simp add: agree_above_mono)
    from stable(1) [OF F(2) this] eq have "represents H' b F" by (simp add: same_fields_refl)
    moreover from fragment_object [OF c(3)] eq
    have "parent_of (H' ! b) = None" "parent_writes (H' ! b) = 0"
      by (simp_all add: parent_of_def)
    ultimately have "represents H' a (Tree tag k (Some Ts) (Some F) (location node))"
      using f(2,4) kids ab(1) c(2) by simp
    with True Ts(1) c(1) F(1) show ?thesis
      unfolding Inr q refines_node_def
      by (simp add: schema1 [symmetric] k_def h_tree.simps)
  qed
qed


lemma set_parentNode_nth:
  "c < length H \<Longrightarrow> set_parentNode c p H ! c =
     (H ! c)\<lparr>parentNode := Some (Some p), parent_writes := Suc (parent_writes (H ! c))\<rparr>"
  by (simp add: set_parentNode_def nth_update)

lemma agree_above_set_parentNode: "agree_above c H (set_parentNode c p H)"
  by (simp add: set_parentNode_def agree_above_update)

lemma refines_loop_step:
  assumes p: "p < length H"
    and IH1: "refines_node (one E x schema H) (tree_of E schema x)"
    and IH2: "\<And>c H1. one E x schema H = Inr (c, H1) \<Longrightarrow> p < length (set_parentNode c p H1) \<Longrightarrow>
      refines_list (set_parentNode c p H1) p (result @ [c])
        (all_loop E xs p schema (result @ [c]) (set_parentNode c p H1))
        (all_loop_trees E schema xs)"
  shows "refines_list H p result (all_loop E (x # xs) p schema result H)
    (all_loop_trees E schema (x # xs))"
proof (cases "one E x schema H")
  case (Inl q)
  with IH1 show ?thesis
    by (cases q) (simp add: refines_node_def refines_list_def)
next
  case (Inr r)
  obtain c H1 where r: "r = (c, H1)" by (cases r)
  define H1' where "H1' = set_parentNode c p H1"
  note one = Inr [unfolded r]
  from IH1 one obtain T where T: "tree_of E schema x = Inr T" "represents H1 c T"
    by (auto simp: refines_node_def split: sum.splits)
  from one_object [OF one] have c: "c = length H" "c < length H1" "parent_writes (H1 ! c) = 0"
    by simp_all
  have len: "length H1' = length H1" by (simp add: H1'_def length_set_parentNode)
  have c': "H1' ! c = (H1 ! c)\<lparr>parentNode := Some (Some p), parent_writes := Suc 0\<rparr>"
    using c by (simp add: H1'_def set_parentNode_nth)
  have ag: "agree_above c H1 H1'" unfolding H1'_def by (rule agree_above_set_parentNode)
  from c' have "same_fields (H1 ! c) (H1' ! c)" by (simp add: same_fields_def)
  with T(2) ag have rep1: "represents H1' c T" by (rule stable(1))
  from p c len have "p < length H1'" by simp
  from IH2 [OF one this [unfolded H1'_def]]
  have IH: "refines_list H1' p (result @ [c]) (all_loop E xs p schema (result @ [c]) H1')
      (all_loop_trees E schema xs)"
    by (simp add: H1'_def)
  have eq: "all_loop E (x # xs) p schema result H = all_loop E xs p schema (result @ [c]) H1'"
    by (simp add: one H1'_def)
  show ?thesis
  proof (cases "all_loop E xs p schema (result @ [c]) H1'")
    case Inl2: (Inl q)
    with IH T(1) show ?thesis
      unfolding eq by (cases q) (simp add: refines_list_def)
  next
    case Inr2: (Inr q)
    obtain res H' where q: "q = (res, H')" by (cases q)
    from IH Inr2 q obtain Ts new where Ts: "all_loop_trees E schema xs = Inr Ts"
      "res = (result @ [c]) @ new" "\<forall>d \<in> set new. length H1' \<le> d"
      "represents_children H' p new Ts"
      by (auto simp: refines_list_def split: sum.splits)
    have g: "grows H1' H'"
      using frame(7) [of H1' "result @ [c]" E xs p schema] Inr2 [unfolded q] by (rule fresh_listD)
    with c len have eq': "H' ! c = H1' ! c" by (simp add: grows_nth)
    from rep1 agree_above_grows [OF g] have "represents H' c T"
      by (rule stable(1)) (simp add: eq' same_fields_refl)
    moreover from Ts(3) c len have "c \<notin> set new" by auto
    moreover from p c have "p < c" by simp
    ultimately have "represents_children H' p (c # new) (T # Ts)"
      using Ts(4) eq' c' by (simp add: parent_of_def)
    moreover from Ts(3) c len have "\<forall>d \<in> set (c # new). length H \<le> d" by auto
    ultimately show ?thesis
      unfolding eq Inr2 q refines_list_def using T(1) Ts(1,2)
      by (auto intro!: exI [of _ "c # new"])
  qed
qed

lemma refines:
  "refines_node (one E node schema H) (tree_of E schema node)"
  "refines_node (root E node schema H) (root_tree E schema node)"
  "refines_node (fragment E node schema H) (fragment_tree E schema node)"
  "refines_node (element E node schema H) (element_tree E schema node)"
  "refines_node (h E node schema tag as H) (h_tree E schema node tag as)"
  "p5 < length H \<longrightarrow> refines_list H p5 [] (all E cs p5 schema H) (all_trees E schema cs)"
  "p5 < length H \<longrightarrow> refines_list H p5 result (all_loop E xs p5 schema result H)
     (all_loop_trees E schema xs)"
proof (induction E node schema H and E node schema H and E node schema H and E node schema H
    and E node schema tag as H and E cs p5 schema H and E xs p5 schema result H
    rule: one_root_fragment_element_h_all_all_loop.induct)
  case (1 E node schema H)
  then show ?case
    by (cases node) (simp_all add: one.simps tree_of.simps refines_leaf, simp add: refines_node_def)
next
  case (2 E node schema H)
  have "refines_node (root E node schema H)
     (case all_trees E schema (children node) of Inl e \<Rightarrow> Inl e
      | Inr Ts \<Rightarrow> Inr (Tree ''#document''
          (Document (if data node = Some (Some True) then ''quirks'' else ''no-quirks''))
          (Some Ts) None (location node)))"
    unfolding root.simps alloc_def Let_def prod.case
    by (rule refines_parent [OF _ refl]) (simp add: 2 [unfolded alloc_def, OF refl refl])
  then show ?case by (simp add: root_tree.simps)
next
  case (3 E node schema H)
  have "refines_node (fragment E node schema H)
     (case all_trees E schema (children node) of Inl e \<Rightarrow> Inl e
      | Inr Ts \<Rightarrow> Inr (Tree ''#document-fragment'' Fragment (Some Ts) None (location node)))"
    unfolding fragment.simps alloc_def Let_def prod.case
    by (rule refines_parent [OF _ refl]) (simp add: 3 [unfolded alloc_def, OF refl refl])
  then show ?case by (simp add: fragment_tree.simps)
next
  case (4 E node schema H)
  then show ?case by (simp add: element.simps element_tree.simps toH_def)
next
  case (5 E node schema tag as H)
  show ?case
  proof (rule refines_h [OF _ _ refl refl])
    show "refines_list
      (patch node (length H) (H @ [object tag
         (ElementNode tag (attrs_loop E schema as [])
            (ns_at E (Some (space (switched schema node))))) (Some []) (Some None)]))
      (length H) []
      (all E (children node) (length H) (switched schema node)
        (patch node (length H) (H @ [object tag
           (ElementNode tag (attrs_loop E schema as [])
              (ns_at E (Some (space (switched schema node))))) (Some []) (Some None)])))
      (all_trees E (switched schema node) (children node))"
      using 5(1) [unfolded alloc_def, OF refl refl refl refl refl]
      by (simp add: length_patch)
  next
    fix result H3 c
    assume a: "all E (children node) (length H) (switched schema node)
        (patch node (length H) (H @ [object tag
           (ElementNode tag (attrs_loop E schema as [])
              (ns_at E (Some (space (switched schema node))))) (Some []) (Some None)])) =
        Inr (result, H3)" "tag = ''template''" "content node = Some c"
    show "refines_node (fragment E c (switched schema node)
          (update (length H) (\<lambda>obj. obj\<lparr>childNodes := Some result\<rparr>) H3))
        (fragment_tree E (switched schema node) c)"
      by (rule 5(2) [unfolded alloc_def, OF refl refl refl refl refl a(1) refl refl a(2) a(3)])
  qed
next
  case (6 E cs p5 schema H)
  then show ?case
    by (cases cs) (simp_all add: all.simps all_trees.simps refines_list_def)
next
  case (7 E p5 schema result H)
  show ?case by (simp add: refines_list_def)
next
  case (8 E x xs p5 schema result H)
  show ?case
  proof
    assume p: "p5 < length H"
    show "refines_list H p5 result (all_loop E (x # xs) p5 schema result H)
      (all_loop_trees E schema (x # xs))"
      using p 8(1)
    proof (rule refines_loop_step)
      fix c H1
      assume "one E x schema H = Inr (c, H1)" "p5 < length (set_parentNode c p5 H1)"
      with 8(2) [OF this(1) refl] show "refines_list (set_parentNode c p5 H1) p5 (result @ [c])
        (all_loop E xs p5 schema (result @ [c]) (set_parentNode c p5 H1))
        (all_loop_trees E schema xs)"
        by simp
    qed
  qed
qed

section \<open>The links follow the source tree\<close>

lemma all_loop_trees_nth:
  "all_loop_trees E schema xs = Inr Ts \<Longrightarrow>
     length Ts = length xs \<and> (\<forall>i < length xs. tree_of E schema (xs ! i) = Inr (Ts ! i))"
proof (induction xs arbitrary: Ts)
  case Nil
  then show ?case by simp
next
  case (Cons x xs)
  from Cons.prems obtain T Ts' where T: "tree_of E schema x = Inr T"
    "all_loop_trees E schema xs = Inr Ts'" "Ts = T # Ts'"
    by (auto split: sum.splits)
  from Cons.IH [OF T(2)] T(1,3) show ?case
    by (auto simp: nth_Cons split: nat.splits)
qed

lemma all_trees_kids:
  "all_trees E schema cs = Inr Ts \<Longrightarrow> children node = cs \<Longrightarrow>
     all_loop_trees E schema (kids node) = Inr Ts"
  by (cases cs) (auto simp: all_trees.simps kids_def)

lemma represents_children_nth:
  "represents_children H p as Ts \<Longrightarrow>
     length as = length Ts \<and> distinct as \<and>
     (\<forall>i < length as. parent_of (H ! (as ! i)) = Some p \<and> parent_writes (H ! (as ! i)) = 1 \<and>
        represents H (as ! i) (Ts ! i))"
proof (induction as arbitrary: Ts)
  case Nil
  then show ?case by (cases Ts) simp_all
next
  case (Cons a as)
  then obtain T Ts' where Ts: "Ts = T # Ts'" by (cases Ts) auto
  with Cons.prems have a: "a \<notin> set as" "parent_of (H ! a) = Some p" "parent_writes (H ! a) = 1"
    "represents H a T" "represents_children H p as Ts'"
    by simp_all
  from Cons.IH [OF a(5)] a(1-4) Ts show ?case
    by (auto simp: nth_Cons split: nat.splits)
qed

text \<open>The children and the content of the tree built for a node.\<close>

lemma fragment_tree_Inr:
  "fragment_tree E schema c = Inr F \<Longrightarrow>
     \<exists>Fs. F = Tree ''#document-fragment'' Fragment (Some Fs) None (location c) \<and>
       all_loop_trees E schema (kids c) = Inr Fs"
  by (auto simp: fragment_tree.simps dest: all_trees_kids [OF _ refl] split: sum.splits)

lemma tree_of_children:
  assumes "tree_of E schema node = Inr T"
  shows "(case t_childNodes T of
            None \<Rightarrow> kids node = []
          | Some Ts \<Rightarrow> (\<exists>s1. all_loop_trees E s1 (kids node) = Inr Ts)) \<and>
         (case t_content T of
            None \<Rightarrow> True
          | Some F \<Rightarrow> (\<exists>c s1 Fs. content node = Some c \<and> t_childNodes F = Some Fs \<and>
              all_loop_trees E s1 (kids c) = Inr Fs))"
proof (cases node)
  case (Root p d cs)
  with assms have "root_tree E schema node = Inr T" by (simp add: tree_of.simps)
  then obtain Ts where Ts: "all_trees E schema (children node) = Inr Ts"
    "t_childNodes T = Some Ts" "t_content T = None"
    by (auto simp: root_tree.simps split: sum.splits)
  from all_trees_kids [OF Ts(1) refl] Ts(2,3) show ?thesis by auto
next
  case (Element p t ps cs c)
  with assms have "h_tree E schema node t ps = Inr T"
    by (simp add: tree_of.simps element_tree.simps toH_def without_children_def)
  then obtain Ts where Ts: "all_trees E (switched schema node) (children node) = Inr Ts"
    "t_childNodes T = Some Ts"
    "t_content T = None \<or> (\<exists>c F. content node = Some c \<and> t_content T = Some F \<and>
       fragment_tree E (switched schema node) c = Inr F)"
    by (auto simp: h_tree.simps split: sum.splits if_splits option.splits)
  from Ts(3) have "case t_content T of
            None \<Rightarrow> True
          | Some F \<Rightarrow> (\<exists>c s1 Fs. content node = Some c \<and> t_childNodes F = Some Fs \<and>
              all_loop_trees E s1 (kids c) = Inr Fs)"
    by (auto dest!: fragment_tree_Inr)
  with all_trees_kids [OF Ts(1) refl] Ts(2) show ?thesis by auto
next
  case (Text p v)
  with assms show ?thesis by (auto simp: tree_of.simps kids_def)
next
  case (Comment p v)
  with assms show ?thesis by (auto simp: tree_of.simps kids_def)
next
  case (Doctype p)
  with assms show ?thesis by (auto simp: tree_of.simps kids_def)
next
  case (Unknown p cs)
  with assms show ?thesis by (simp add: tree_of.simps)
qed


lemma represents_fields:
  "represents H a T \<Longrightarrow>
     (case t_childNodes T of
        None \<Rightarrow> childNodes (H ! a) = None
      | Some Ts \<Rightarrow> (\<exists>as. childNodes (H ! a) = Some as \<and> represents_children H a as Ts)) \<and>
     (case t_content T of
        None \<Rightarrow> p5_content (H ! a) = None
      | Some F \<Rightarrow> (\<exists>f. p5_content (H ! a) = Some f \<and> parent_of (H ! f) = None \<and>
          parent_writes (H ! f) = 0 \<and> represents H f F))"
  by (cases T) (auto split: option.splits)

lemma represents_linked:
  "tree_of E schema node = Inr T \<Longrightarrow> represents H a T \<Longrightarrow> linked H a node"
proof (induction H a node arbitrary: schema T rule: linked.induct)
  case (1 H a node)
  note tc = tree_of_children [OF 1(3)]
  note rf = represents_fields [OF 1(4)]
  have kids: "(case childNodes (H ! a) of
         None \<Rightarrow> kids node = []
       | Some as \<Rightarrow> length as = length (kids node) \<and> distinct as \<and>
           (\<forall>i < length (kids node). parent_of (H ! (as ! i)) = Some a \<and>
              parent_writes (H ! (as ! i)) = 1 \<and> linked H (as ! i) (kids node ! i)))"
  proof (cases "t_childNodes T")
    case None
    with tc rf show ?thesis by simp
  next
    case (Some Ts)
    with tc rf obtain as s1 where as: "childNodes (H ! a) = Some as"
      "represents_children H a as Ts" "all_loop_trees E s1 (kids node) = Inr Ts"
      by auto
    note n1 = represents_children_nth [OF as(2)]
    note n2 = all_loop_trees_nth [OF as(3)]
    have "linked H (as ! i) (kids node ! i)" if "i < length (kids node)" for i
      using that n1 n2 by (intro 1(1) [OF as(1) that, of s1 "Ts ! i"]) auto
    with n1 n2 as(1) show ?thesis by simp
  qed
  have cont: "(case p5_content (H ! a) of
         None \<Rightarrow> True
       | Some f \<Rightarrow>
           (case content node of
              None \<Rightarrow> False
            | Some c \<Rightarrow> parent_of (H ! f) = None \<and> parent_writes (H ! f) = 0 \<and>
                (case childNodes (H ! f) of
                   None \<Rightarrow> False
                 | Some as \<Rightarrow> length as = length (kids c) \<and> distinct as \<and>
                     (\<forall>i < length (kids c). parent_of (H ! (as ! i)) = Some f \<and>
                        parent_writes (H ! (as ! i)) = 1 \<and> linked H (as ! i) (kids c ! i)))))"
  proof (cases "p5_content (H ! a)")
    case None
    then show ?thesis by simp
  next
    case (Some f)
    with rf obtain F where F: "t_content T = Some F" "parent_of (H ! f) = None"
      "parent_writes (H ! f) = 0" "represents H f F"
      by (cases "t_content T") auto
    with tc obtain c s1 Fs where c: "content node = Some c" "t_childNodes F = Some Fs"
      "all_loop_trees E s1 (kids c) = Inr Fs"
      by auto
    from represents_fields [OF F(4)] c(2) obtain bs where bs: "childNodes (H ! f) = Some bs"
      "represents_children H f bs Fs"
      by auto
    note n1 = represents_children_nth [OF bs(2)]
    note n2 = all_loop_trees_nth [OF c(3)]
    have "linked H (bs ! i) (kids c ! i)" if "i < length (kids c)" for i
      using that n1 n2 by (intro 1(2) [OF Some c(1) bs(1) that, of s1 "Fs ! i"]) auto
    with n1 n2 Some c(1) bs(1) F(2,3) show ?thesis by simp
  qed
  from kids cont show ?case by (subst linked.simps) simp
qed


section \<open>Evaluation\<close>

lemmas eval_simps = one.simps root.simps fragment.simps element.simps h.simps all.simps
  toH_def without_children_def switched_def space_def alloc_def update_def patch_def
  set_parentNode_def object_def text_node_def comment_def doctype_def Let_def ns_at_def
  toParse5_def

lemmas env0_simps = env0_def entry_def foreign_def falsy_def String_def decimal.simps
  slice_from_def slice_to_def

section \<open>The claims\<close>

text \<open>
  C1. When \<open>toParse5\<close> returns, the \<open>parentNode\<close> of the node it returns is undefined
  and was never assigned, and the returned node is linked to the source tree: at
  every level the child list of a produced node has exactly one address per source
  child, each once and at the source child's position, and the \<open>parentNode\<close> of each
  child is that produced node, assigned exactly once (\<open>parent_writes\<close> counts the
  assignments of line 232, the only writes to the field). The fragment made for the
  content of a template is a root of its own: its \<open>parentNode\<close> is undefined.
  The returned node represents the tree that the converters build for the source
  tree, so the object at a position is the conversion of the source child at that
  position.
\<close>

theorem parent_links:
  assumes "toParse5 E tree sp H = Inr (a, H')"
  shows "parent_of (H' ! a) = None \<and> parent_writes (H' ! a) = 0 \<and> linked H' a tree \<and>
    (\<exists>T. tree_of E (if sp = Some ''svg'' then svg else html) tree = Inr T \<and>
       represents H' a T)"
proof -
  define schema where "schema = (if sp = Some ''svg'' then svg else html)"
  from assms have one: "one E tree schema H = Inr (a, H')"
    by (simp add: toParse5_def schema_def)
  with refines(1) [of E tree schema H] obtain T where T: "tree_of E schema tree = Inr T"
    "represents H' a T"
    by (auto simp: refines_node_def split: sum.splits)
  then have "linked H' a tree" by (rule represents_linked)
  with one_object(4,5) [OF one] T show ?thesis
    unfolding schema_def by (auto simp: parent_of_def)
qed

theorem parent_links_witness:
  "toParse5 env0 nested_tree None [] = Inr (0, nested_heap) \<and>
   parent_of (nested_heap ! 0) = None \<and> parent_writes (nested_heap ! 0) = 0 \<and>
   linked nested_heap 0 nested_tree \<and>
   (\<exists>T. tree_of env0 html nested_tree = Inr T \<and> represents nested_heap 0 T)"
proof -
  have e: "toParse5 env0 nested_tree None [] = Inr (0, nested_heap)"
    by (simp add: eval_simps nested_tree_def nested_heap_def env0_def)
  from parent_links [OF e] e show ?thesis by simp
qed

text \<open>
  C2. The tree \<^verbatim>\<open><div><svg><rect/></svg><span/></div>\<close>, converted with the initial
  schema HTML from an empty heap, gives four objects: the \<^verbatim>\<open>div\<close> (address 0) has the
  namespace URI of \<^verbatim>\<open>html\<close>, the \<^verbatim>\<open>svg\<close> (1) and the \<^verbatim>\<open>rect\<close> (2) have that of
  \<^verbatim>\<open>svg\<close>, and the \<^verbatim>\<open>span\<close> (3), the sibling after the \<^verbatim>\<open>svg\<close>, has that of
  \<^verbatim>\<open>html\<close> again. This holds for every resolver and namespace table.
\<close>

theorem namespace_propagation:
  "toParse5 E div_tree None [] = Inr (0,
   [\<lparr>nodeName = ''div'', kind = ElementNode ''div'' [] (ns E ''html''),
     childNodes = Some [1, 3], parentNode = Some None,
     p5_content = None, sourceCodeLocation = None, parent_writes = 0\<rparr>,
    \<lparr>nodeName = ''svg'', kind = ElementNode ''svg'' [] (ns E ''svg''),
     childNodes = Some [2], parentNode = Some (Some 0),
     p5_content = None, sourceCodeLocation = None, parent_writes = 1\<rparr>,
    \<lparr>nodeName = ''rect'', kind = ElementNode ''rect'' [] (ns E ''svg''),
     childNodes = Some [], parentNode = Some (Some 1),
     p5_content = None, sourceCodeLocation = None, parent_writes = 1\<rparr>,
    \<lparr>nodeName = ''span'', kind = ElementNode ''span'' [] (ns E ''html''),
     childNodes = Some [], parentNode = Some (Some 0),
     p5_content = None, sourceCodeLocation = None, parent_writes = 1\<rparr>])"
  by (simp add: eval_simps div_tree_def)




text \<open>
  C4. A template element with no children and a content whose children are one text
  node "x" gives three objects: the element (address 0) with an empty \<open>childNodes\<close>
  and \<open>content\<close> at address 1; the document fragment (1) whose \<open>childNodes\<close> is the
  one text node (2) with value "x". The text is converted once: there is no fourth
  object and none under the element's \<open>childNodes\<close>.
\<close>

theorem template_content:
  "toParse5 E template_tree None [] = Inr (0,
   [\<lparr>nodeName = ''template'', kind = ElementNode ''template'' [] (ns E ''html''),
     childNodes = Some [], parentNode = Some None,
     p5_content = Some 1, sourceCodeLocation = None, parent_writes = 0\<rparr>,
    \<lparr>nodeName = ''#document-fragment'', kind = Fragment,
     childNodes = Some [2], parentNode = None,
     p5_content = None, sourceCodeLocation = None, parent_writes = 0\<rparr>,
    \<lparr>nodeName = ''#text'', kind = TextNode ''x'',
     childNodes = None, parentNode = Some (Some 1),
     p5_content = None, sourceCodeLocation = None, parent_writes = 1\<rparr>])"
  by (simp add: eval_simps template_tree_def)



text \<open>
  C6. For the object a converter returns for a node (the dispatcher, or \<open>fragment\<close>
  for the content of a template): when the node's position is present with its start
  and its end, \<open>sourceCodeLocation\<close> holds exactly the six values of the two points;
  when the position is absent, or its start or its end is, the object has no
  \<open>sourceCodeLocation\<close>.
\<close>

theorem location_passthrough:
  assumes "one E node schema H = Inr (a, H') \<or> fragment E node schema H = Inr (a, H')"
  shows "(position node = Some pos \<and> pos_start pos = Some st \<and> pos_end pos = Some en \<longrightarrow>
      sourceCodeLocation (H' ! a) = Some
        \<lparr>startLine = line st, startCol = column st, startOffset = offset st,
         endLine = line en, endCol = column en, endOffset = offset en\<rparr>) \<and>
    (position node = None \<or>
     (position node = Some pos \<and> (pos_start pos = None \<or> pos_end pos = None)) \<longrightarrow>
      sourceCodeLocation (H' ! a) = None)"
proof -
  from assms have "sourceCodeLocation (H' ! a) = location node"
    by (auto simp: one_object fragment_object)
  then show ?thesis
    by (auto simp: location_def split: option.splits)
qed

theorem location_passthrough_witness:
  "one env0 text_abc html [] = Inr (0,
     [\<lparr>nodeName = ''#text'', kind = TextNode ''abc'', childNodes = None,
       parentNode = Some None, p5_content = None,
       sourceCodeLocation = Some \<lparr>startLine = 1, startCol = 1, startOffset = Some 0,
         endLine = 1, endCol = 4, endOffset = Some 3\<rparr>,
       parent_writes = 0\<rparr>]) \<and>
   one env0 (Text None ''abc'') html [] = Inr (0,
     [\<lparr>nodeName = ''#text'', kind = TextNode ''abc'', childNodes = None,
       parentNode = Some None, p5_content = None, sourceCodeLocation = None,
       parent_writes = 0\<rparr>])"
proof -
  have e: "one env0 text_abc html [] = Inr (0,
     [\<lparr>nodeName = ''#text'', kind = TextNode ''abc'', childNodes = None,
       parentNode = Some None, p5_content = None,
       sourceCodeLocation = Some \<lparr>startLine = 1, startCol = 1, startOffset = Some 0,
         endLine = 1, endCol = 4, endOffset = Some 3\<rparr>,
       parent_writes = 0\<rparr>])"
    by (simp add: eval_simps text_abc_def)
  have f: "one env0 (Text None ''abc'') html [] = Inr (0,
     [\<lparr>nodeName = ''#text'', kind = TextNode ''abc'', childNodes = None,
       parentNode = Some None, p5_content = None, sourceCodeLocation = None,
       parent_writes = 0\<rparr>])"
    by (simp add: eval_simps)
  from location_passthrough [OF disjI1 [OF e], of
      "\<lparr>pos_start = Some \<lparr>line = 1, column = 1, offset = Some 0\<rparr>,
        pos_end = Some \<lparr>line = 1, column = 4, offset = Some 3\<rparr>\<rparr>"
      "\<lparr>line = 1, column = 1, offset = Some 0\<rparr>" "\<lparr>line = 1, column = 4, offset = Some 3\<rparr>"]
    location_passthrough [OF disjI1 [OF f]] e f
  show ?thesis by simp
qed

text \<open>
  C7. When a node of another type than the five stands anywhere the conversion hands
  a node to the dispatcher, the conversion throws and returns no node; the dispatcher
  itself throws the unsupported-kind error for such a node and leaves the heap as it
  is. (The behaviour of the dispatcher on such a node is modelled from the spec.)
\<close>

theorem unsupported_kind_fails:
  assumes "visits tree (Unknown p cs)"
  shows "(\<exists>e H'. toParse5 E tree sp H = Inl (e, H')) \<and>
    one E (Unknown p cs) schema H = Inl (UnsupportedNodeKind, H)"
proof -
  have "throws (one E tree (if sp = Some ''svg'' then svg else html) H)"
    using assms by (rule visits_throws) (simp add: unknown_throws)
  then show ?thesis
    by (cases "one E tree (if sp = Some ''svg'' then svg else html) H")
      (auto simp: toParse5_def one.simps)
qed

theorem unsupported_kind_fails_witness:
  "visits unknown_child (Unknown None None) \<and>
   toParse5 env0 unknown_child None [] = Inl (UnsupportedNodeKind,
     [\<lparr>nodeName = ''#document'', kind = Document ''no-quirks'', childNodes = Some [],
       parentNode = None, p5_content = None, sourceCodeLocation = None, parent_writes = 0\<rparr>,
      \<lparr>nodeName = ''#text'', kind = TextNode ''a'', childNodes = None,
       parentNode = Some (Some 0), p5_content = None, sourceCodeLocation = None,
       parent_writes = 1\<rparr>])"
proof -
  have v: "visits unknown_child (Unknown None None)"
    unfolding unknown_child_def by (rule visits.in_root [OF _ visits.here]) simp
  from unsupported_kind_fails [OF v, of env0 None "[]"] v show ?thesis
    by (simp add: eval_simps unknown_child_def)
qed



text \<open>
  C9. For an attribute that is emitted and whose metadata gives a foreign namespace
  (a \<open>space\<close> that is set and neither "html" nor "svg"): a name without a colon is
  kept whole, with \<open>prefix\<close> present and empty and \<open>namespace\<close> set to the entry of
  the namespace table; a name with a colon is split at its first colon into \<open>prefix\<close>
  and \<open>name\<close>.
\<close>

theorem foreign_attribute:
  assumes "foreign (find E schema key)" "v \<noteq> Bool False"
    "\<not> (boolean (find E schema key) \<and> falsy E v)"
  shows "(CHR '':'' \<notin> set key \<longrightarrow>
      attrs_loop E schema [(key, v)] [] =
        [\<lparr>name = key, attr_value = (if v = Bool True then [] else String E v),
          prefix = Some [], namespace = Some (ns_at E (info_space (find E schema key)))\<rparr>]) \<and>
    (CHR '':'' \<in> set key \<longrightarrow>
      (\<exists>pre local. key = pre @ CHR '':'' # local \<and> CHR '':'' \<notin> set pre \<and>
        attrs_loop E schema [(key, v)] [] =
          [\<lparr>name = local, attr_value = (if v = Bool True then [] else String E v),
            prefix = Some pre, namespace = Some (ns_at E (info_space (find E schema key)))\<rparr>]))"
proof (intro conjI impI)
  assume "CHR '':'' \<notin> set key"
  with assms show "attrs_loop E schema [(key, v)] [] =
        [\<lparr>name = key, attr_value = (if v = Bool True then [] else String E v),
          prefix = Some [], namespace = Some (ns_at E (info_space (find E schema key)))\<rparr>]"
    by (simp add: Let_def entry_no_colon)
next
  assume colon: "CHR '':'' \<in> set key"
  define pre where "pre = takeWhile (\<lambda>x. x \<noteq> CHR '':'') key"
  define local where "local = tl (dropWhile (\<lambda>x. x \<noteq> CHR '':'') key)"
  from colon have "dropWhile (\<lambda>x. x \<noteq> CHR '':'') key \<noteq> []" by simp
  then have "hd (dropWhile (\<lambda>x. x \<noteq> CHR '':'') key) = CHR '':''"
    using hd_dropWhile [of "\<lambda>x. x \<noteq> CHR '':''" key] by simp
  with \<open>dropWhile (\<lambda>x. x \<noteq> CHR '':'') key \<noteq> []\<close>
  have "dropWhile (\<lambda>x. x \<noteq> CHR '':'') key = CHR '':'' # local"
    by (cases "dropWhile (\<lambda>x. x \<noteq> CHR '':'') key") (simp_all add: local_def)
  then have "key = pre @ CHR '':'' # local"
    using takeWhile_dropWhile_id [of "\<lambda>x. x \<noteq> CHR '':''" key] by (simp add: pre_def)
  moreover have "CHR '':'' \<notin> set pre"
    by (auto simp: pre_def dest: set_takeWhileD)
  moreover from assms colon have "attrs_loop E schema [(key, v)] [] =
          [\<lparr>name = local, attr_value = (if v = Bool True then [] else String E v),
            prefix = Some pre, namespace = Some (ns_at E (info_space (find E schema key)))\<rparr>]"
    by (simp add: Let_def entry_colon pre_def local_def)
  ultimately show "\<exists>pre local. key = pre @ CHR '':'' # local \<and> CHR '':'' \<notin> set pre \<and>
        attrs_loop E schema [(key, v)] [] =
          [\<lparr>name = local, attr_value = (if v = Bool True then [] else String E v),
            prefix = Some pre, namespace = Some (ns_at E (info_space (find E schema key)))\<rparr>]"
    by blast
qed


theorem foreign_attribute_witness:
  "foreign (find env0 html ''xmlns'') \<and> foreign (find env0 html ''xlink:href'') \<and>
   attrs_loop env0 html [(''xmlns'', Str ''u'')] [] =
     [\<lparr>name = ''xmlns'', attr_value = ''u'', prefix = Some [],
       namespace = Some (Some ''http://www.w3.org/2000/xmlns/'')\<rparr>] \<and>
   attrs_loop env0 html [(''xlink:href'', Str ''#b'')] [] =
     [\<lparr>name = ''href'', attr_value = ''#b'', prefix = Some ''xlink'',
       namespace = Some (Some ''http://www.w3.org/1999/xlink'')\<rparr>]"
proof -
  have a: "foreign (find env0 html ''xmlns'')" "Str ''u'' \<noteq> (Bool False :: int prim)"
    "\<not> (boolean (find env0 html ''xmlns'') \<and> falsy env0 (Str ''u''))"
    by (simp_all add: env0_def foreign_def)
  have b: "foreign (find env0 html ''xlink:href'')" "Str ''#b'' \<noteq> (Bool False :: int prim)"
    "\<not> (boolean (find env0 html ''xlink:href'') \<and> falsy env0 (Str ''#b''))"
    by (simp_all add: env0_def foreign_def)
  from foreign_attribute [OF a] foreign_attribute [OF b] a(1) b(1) show ?thesis
    by (simp add: env0_simps ns_at_def Let_def)
qed

text \<open>
  C10. When a template element without content stands anywhere the conversion hands
  a node to the dispatcher, the conversion throws; for such an element with an empty
  list of children the exception is the type error of reading \<^verbatim>\<open>children\<close> of
  \<^verbatim>\<open>undefined\<close>.
\<close>

theorem template_without_content_fails:
  assumes "visits tree (Element p ''template'' ps cs None)"
  shows "(\<exists>e H'. toParse5 E tree sp H = Inl (e, H')) \<and>
    (\<exists>H'. one E (Element p ''template'' ps (Some []) None) schema H = Inl (TypeError, H'))"
proof -
  have "throws (one E tree (if sp = Some ''svg'' then svg else html) H)"
    using assms by (rule visits_throws) (simp add: template_without_content_throws)
  then have "\<exists>e H'. toParse5 E tree sp H = Inl (e, H')"
    by (cases "one E tree (if sp = Some ''svg'' then svg else html) H")
      (auto simp: toParse5_def)
  moreover have "\<exists>H'. one E (Element p ''template'' ps (Some []) None) schema H =
      Inl (TypeError, H')"
    by (simp add: one_Element h.simps all.simps alloc_def Let_def)
  ultimately show ?thesis by simp
qed

theorem template_without_content_fails_witness:
  "visits template_no_content (Element None ''template'' [] (Some []) None) \<and>
   toParse5 env0 template_no_content None [] = Inl (TypeError,
     [\<lparr>nodeName = ''#document'', kind = Document ''no-quirks'', childNodes = Some [],
       parentNode = None, p5_content = None, sourceCodeLocation = None, parent_writes = 0\<rparr>,
      \<lparr>nodeName = ''template'',
       kind = ElementNode ''template'' [] (Some ''http://www.w3.org/1999/xhtml''),
       childNodes = Some [], parentNode = Some None, p5_content = None,
       sourceCodeLocation = None, parent_writes = 0\<rparr>,
      \<lparr>nodeName = ''#document-fragment'', kind = Fragment, childNodes = Some [],
       parentNode = None, p5_content = None, sourceCodeLocation = None,
       parent_writes = 0\<rparr>])"
proof -
  have v: "visits template_no_content (Element None ''template'' [] (Some []) None)"
    unfolding template_no_content_def by (rule visits.in_root [OF _ visits.here]) simp
  from template_without_content_fails [OF v, of env0 None "[]"] v show ?thesis
    by (simp add: eval_simps template_no_content_def env0_def)
qed

end
